theory Spec2Isabelle
  imports Main "HOL-Library.Word" "HOL-Library.Signed_Division"
begin

section \<open>The robust allreduce engine of rabit (\<^verbatim>\<open>src/allreduce_robust.cc\<close>)\<close>

text \<open>
  A shallow embedding of the recovery engine: the two message-passing combinators, the
  routing decision, the streaming recovery transfer, the link reset handshake, the action
  summary loop \<^verbatim>\<open>RecoverExec\<close> and the public wrappers. C++ \<^verbatim>\<open>int\<close> is a 32-bit
  word read with \<open>sint\<close>; \<^verbatim>\<open>size_t\<close> values (sizes, counters, indices) are natural numbers,
  with the 64-bit wrap-around written out where the source subtracts; \<^verbatim>\<open>char\<close> is a byte.
  Everything the engine obtains from the network (the base engine's collectives, message
  passing, sockets and select) is an explicit argument of the model: a script of responses.
\<close>

subsection \<open>Machine types\<close>

type_synonym cint = "32 word"
type_synonym cchar = "8 word"
type_synonym bytes = "8 word list"

definition INT_MAX :: cint where
  "INT_MAX = 0x7FFFFFFF"

text \<open>\<^verbatim>\<open>static_cast<int>(i)\<close> for a \<^verbatim>\<open>size_t\<close> \<open>i\<close>: the low 32 bits.\<close>

definition static_cast_int :: "nat \<Rightarrow> cint" where
  "static_cast_int i = word_of_nat i"

text \<open>Subtraction of two \<^verbatim>\<open>size_t\<close> values: it wraps around modulo \<open>2^64\<close>.\<close>

definition size_sub :: "nat \<Rightarrow> nat \<Rightarrow> nat" where
  "size_sub a b = (if b \<le> a then a - b else a + 2 ^ 64 - b)"

subsection \<open>The message-passing combinators (lines 353--400)\<close>

text \<open>
  \<^verbatim>\<open>ShortestDist\<close>: the body of the \<^verbatim>\<open>for\<close> loop at index \<open>i\<close>, on the pair
  \<open>(res, size)\<close> of the two local variables. \<open>dist_in[i].first + 1\<close> is computed only when
  \<open>dist_in[i].first\<close> is not \<^verbatim>\<open>INT_MAX\<close>, so the addition never overflows.
\<close>

definition ShortestDist_step ::
  "(cint \<times> nat) list \<Rightarrow> nat \<Rightarrow> nat \<Rightarrow> cint \<times> nat \<Rightarrow> cint \<times> nat" where
  "ShortestDist_step dist_in out_index i acc =
     (if i = out_index then acc
      else if fst (dist_in ! i) = INT_MAX then acc
      else if sint (fst (dist_in ! i) + 1) < sint (fst acc)
        then (fst (dist_in ! i) + 1, snd (dist_in ! i))
        else acc)"

definition ShortestDist ::
  "bool \<times> nat \<Rightarrow> (cint \<times> nat) list \<Rightarrow> nat \<Rightarrow> cint \<times> nat" where
  "ShortestDist node_value dist_in out_index =
     (if fst node_value then (1, snd node_value)
      else fold (ShortestDist_step dist_in out_index) [0..<length dist_in] (INT_MAX, 0))"

text \<open>The loop of \<^verbatim>\<open>ShortestDist\<close> after its first \<open>n\<close> iterations.\<close>

definition scan :: "(cint \<times> nat) list \<Rightarrow> nat \<Rightarrow> nat \<Rightarrow> cint \<times> nat" where
  "scan d out n = fold (ShortestDist_step d out) [0..<n] (INT_MAX, 0)"

text \<open>
  The neighbours the specification lets \<^verbatim>\<open>ShortestDist\<close> choose from: every link but
  \<open>out_index\<close> whose distance is not \<open>+\<infinity>\<close>.
\<close>

definition candidate :: "(cint \<times> nat) list \<Rightarrow> nat \<Rightarrow> nat \<Rightarrow> bool" where
  "candidate dist_in out_index i = (i \<noteq> out_index \<and> fst (dist_in ! i) \<noteq> INT_MAX)"

text \<open>\<^verbatim>\<open>DataRequest\<close>: the scan of \<open>req_in\<close>, which returns 1 at the first request found.\<close>

fun DataRequest_loop :: "cchar list \<Rightarrow> nat \<Rightarrow> nat list \<Rightarrow> cchar" where
  "DataRequest_loop req_in out_index [] = 0"
| "DataRequest_loop req_in out_index (i # rest) =
     (if i = out_index then DataRequest_loop req_in out_index rest
      else if req_in ! i \<noteq> 0 then 1
      else DataRequest_loop req_in out_index rest)"

definition DataRequest :: "bool \<times> cint \<Rightarrow> cchar list \<Rightarrow> nat \<Rightarrow> cchar" where
  "DataRequest node_value req_in out_index =
     (let request_data = fst node_value;
          best_link = snd node_value
      in if static_cast_int out_index = best_link
         then (if request_data then 1
               else DataRequest_loop req_in out_index [0..<length req_in])
         else 0)"

subsection \<open>Return codes, roles, failures and loops\<close>

datatype ReturnType = kSuccess | kSockError | kGetExcept

datatype RecoverType = kHaveData | kRequestData | kPassData

text \<open>
  \<^verbatim>\<open>utils::Assert\<close> and \<^verbatim>\<open>utils::Check\<close> stop the process with their message when the
  condition is false; \<open>Undefined\<close> marks the places where C++ gives the source no meaning
  (an index out of range, a division by zero).
\<close>

datatype error = AssertFailed string | CheckFailed string | Undefined string

text \<open>
  How a call ends: it returns a value, it is stopped by a failure, or it is still inside
  one of its \<^verbatim>\<open>while (true)\<close> loops when the script of network responses ends.
\<close>

datatype 'a outcome = Done 'a | Abort error | Blocked

text \<open>
  A \<^verbatim>\<open>for\<close> loop over indices whose body may leave the function: the body answers
  \<open>Some r\<close> to leave with \<open>r\<close> and \<open>None\<close> to go on; the state is kept in both cases.
\<close>

fun for_links :: "(nat \<Rightarrow> 's \<Rightarrow> 'r option \<times> 's) \<Rightarrow> nat list \<Rightarrow> 's \<Rightarrow> 'r option \<times> 's" where
  "for_links body [] s = (None, s)"
| "for_links body (i # rest) s =
     (case body i s of
        (Some r, s') \<Rightarrow> (Some r, s')
      | (None, s') \<Rightarrow> for_links body rest s')"

subsection \<open>The routing decision \<^verbatim>\<open>TryDecideRouting\<close> (lines 415--460)\<close>

text \<open>
  Modelled from the spec: \<^verbatim>\<open>MsgPassing\<close> is not in the sources (the base engine's generic
  message passing). The specification says that it computes, for every outbound link, a
  message derived from the node's own value and the inbound messages. The inbound messages
  and the return code are the network's answer \<open>net\<close>; the outbound message on link \<open>i\<close> is
  the combinator applied at \<open>out_index = i\<close>. The result is \<open>(code, edge_in, edge_out)\<close>.
\<close>

definition MsgPassing ::
  "'n \<Rightarrow> ('n \<Rightarrow> 'e list \<Rightarrow> nat \<Rightarrow> 'e) \<Rightarrow> ReturnType \<times> 'e list \<Rightarrow> ReturnType \<times> 'e list \<times> 'e list" where
  "MsgPassing node_value func net =
     (fst net, snd net, map (func node_value (snd net)) [0..<length (snd net)])"

text \<open>
  Lines 428--436, the body of the loop that chooses \<open>best_link\<close>, on the pair
  \<open>(best_link, *p_size)\<close>. \<open>best_link\<close> is \<open>-2\<close> until a reachable neighbour is found.
\<close>

definition best_link_step ::
  "(cint \<times> nat) list \<Rightarrow> nat \<Rightarrow> cint \<times> nat \<Rightarrow> error option \<times> (cint \<times> nat)" where
  "best_link_step dist_in i acc =
     (let best_link = fst acc; p_size = snd acc in
      if fst (dist_in ! i) \<noteq> INT_MAX then
        if \<not> (best_link = - 2 \<or> p_size = snd (dist_in ! i))
        then (Some (CheckFailed ''Allreduce size inconsistent''), acc)
        else if best_link = - 2 \<or>
                sint (fst (dist_in ! i)) < sint (fst (dist_in ! nat (sint best_link)))
        then (None, (static_cast_int i, snd (dist_in ! i)))
        else (None, acc)
      else (None, acc))"

text \<open>
  Lines 451--456, the body of the loop over the requests: it fills \<open>p_req_in\<close> and makes
  the two assertions on every link \<open>i\<close> with \<open>req_out[i] != 0\<close>.
\<close>

definition request_step ::
  "cchar list \<Rightarrow> cchar list \<Rightarrow> cint \<Rightarrow> nat \<Rightarrow> bool list \<Rightarrow> error option \<times> bool list" where
  "request_step req_in req_out best_link i p_req_in =
     (let p = p_req_in[i := (req_in ! i \<noteq> 0)] in
      if length req_out \<le> i then (Some (Undefined ''req_out[i] out of range''), p)
      else if req_out ! i \<noteq> 0 then
        if \<not> req_in ! i = 0 then (Some (AssertFailed ''cannot get and receive request''), p)
        else if \<not> static_cast_int i = best_link
        then (Some (AssertFailed ''request result inconsistent''), p)
        else (None, p)
      else (None, p))"

text \<open>Lines 449--457: \<open>p_req_in\<close> is resized to the number of links and filled.\<close>

definition check_requests :: "cchar list \<Rightarrow> cchar list \<Rightarrow> cint \<Rightarrow> error option \<times> bool list" where
  "check_requests req_in req_out best_link =
     for_links (request_step req_in req_out best_link) [0..<length req_in]
       (replicate (length req_in) False)"

text \<open>
  \<^verbatim>\<open>TryDecideRouting\<close>. The arguments \<open>dist_net\<close> and \<open>req_net\<close> are the network's answers to
  the two message passes. The result is the return code, the value left in \<open>*p_size\<close>
  and, when the code is \<open>kSuccess\<close>, the values stored in \<open>*p_recvlink\<close> and \<open>*p_req_in\<close>.
\<close>

definition TryDecideRouting ::
  "RecoverType \<Rightarrow> nat \<Rightarrow> ReturnType \<times> (cint \<times> nat) list \<Rightarrow> ReturnType \<times> cchar list \<Rightarrow>
   error + ReturnType \<times> nat \<times> (cint \<times> bool list) option" where
  "TryDecideRouting role p_size dist_net req_net =
     (case MsgPassing (role = kHaveData, p_size) ShortestDist dist_net of
        (succ, dist_in, dist_out) \<Rightarrow>
          if succ \<noteq> kSuccess then Inr (succ, p_size, None)
          else
            (case (if role \<noteq> kHaveData
                   then (case for_links (best_link_step dist_in) [0..<length dist_in]
                                (- 2, p_size) of
                           (Some e, _) \<Rightarrow> Inl e
                         | (None, (best_link, p_size')) \<Rightarrow>
                             if \<not> best_link \<noteq> - 2
                             then Inl (CheckFailed
                               ''Too many nodes went down and we cannot recover..'')
                             else Inr (best_link, p_size'))
                   else Inr (- 1, p_size)) of
               Inl e \<Rightarrow> Inl e
             | Inr (best_link, p_size') \<Rightarrow>
                 (case MsgPassing (role = kRequestData, best_link) DataRequest req_net of
                    (succ2, req_in, req_out) \<Rightarrow>
                      if succ2 \<noteq> kSuccess then Inr (succ2, p_size', None)
                      else
                        (case check_requests req_in req_out best_link of
                           (Some e, _) \<Rightarrow> Inl e
                         | (None, p_req_in) \<Rightarrow>
                             Inr (kSuccess, p_size', Some (best_link, p_req_in))))))"

subsection \<open>Links and sockets\<close>

text \<open>
  Modelled from the spec: \<^verbatim>\<open>LinkRecord\<close> is declared in the base engine's header, which is
  not in the sources. The specification lists a socket, the counters \<open>size_read\<close> and
  \<open>size_write\<close> and a ring buffer \<open>buffer_head[0..buffer_size]\<close>. Of the socket the model
  keeps what \<^verbatim>\<open>BadSocket()\<close> answers (\<open>sock_bad\<close>, set by \<^verbatim>\<open>Close()\<close>) and \<open>wire_out\<close>, the
  bytes the socket has accepted from \<^verbatim>\<open>Send\<close>, in order.
\<close>

record LinkRecord =
  sock_bad :: bool
  size_read :: nat
  size_write :: nat
  buffer_size :: nat
  buffer_head :: bytes
  wire_out :: bytes

text \<open>
  What the network answers to one \<^verbatim>\<open>Recv(buf, n)\<close>: the bytes that are there, of which the
  call takes at most \<open>n\<close> (it returns 0 when it takes none), or \<open>-1\<close> with
  \<^verbatim>\<open>EAGAIN\<close>/\<^verbatim>\<open>EWOULDBLOCK\<close>, or \<open>-1\<close> with another error. To one \<^verbatim>\<open>Send(buf, n)\<close>: the
  number of bytes the socket can take, of which the call sends at most \<open>n\<close>, or the same
  two failures.
\<close>

datatype recv_result = RecvData bytes | RecvAgain | RecvFail

datatype send_result = SendLen nat | SendAgain | SendFail

text \<open>
  One round of \<^verbatim>\<open>select\<close> and of the socket calls that follow it: which sockets are ready
  to read, ready to write or in the exceptional state, and what \<^verbatim>\<open>Recv\<close> and \<^verbatim>\<open>Send\<close>
  answer on each link.
\<close>

record select_env =
  ready_read :: "nat \<Rightarrow> bool"
  ready_write :: "nat \<Rightarrow> bool"
  ready_except :: "nat \<Rightarrow> bool"
  recv_res :: "nat \<Rightarrow> recv_result"
  send_res :: "nat \<Rightarrow> send_result"

text \<open>
  Writing \<open>bs\<close> into a buffer at offset \<open>off\<close>. The source writes through a raw pointer,
  and a write past the end of the destination has no meaning in C++; here, unlike the
  other places without meaning, the model does not stop: it extends a destination that is
  too short with zero bytes first, so the result is longer than the destination was.
\<close>

definition store :: "bytes \<Rightarrow> nat \<Rightarrow> bytes \<Rightarrow> bytes" where
  "store buf off bs =
     take off (buf @ replicate (off - length buf) 0) @ bs @ drop (off + length bs) buf"

text \<open>\<^verbatim>\<open>memcpy(dst, src, n)\<close>.\<close>

definition memcpy :: "bytes \<Rightarrow> bytes \<Rightarrow> nat \<Rightarrow> bytes" where
  "memcpy dst src n = store dst 0 (take n src)"

text \<open>Modelled from the spec: \<^verbatim>\<open>LinkRecord::ResetSize\<close> (absent) clears both counters.\<close>

definition ResetSize :: "LinkRecord \<Rightarrow> LinkRecord" where
  "ResetSize l = l\<lparr>size_read := 0, size_write := 0\<rparr>"

text \<open>Modelled from the spec: \<^verbatim>\<open>sock.Close()\<close> (absent); the socket is bad from then on.\<close>

definition Close :: "LinkRecord \<Rightarrow> LinkRecord" where
  "Close l = l\<lparr>sock_bad := True\<rparr>"

text \<open>
  Modelled from the spec: \<^verbatim>\<open>LinkRecord::ReadToArray(buf, max_size)\<close> (absent) reads from the
  link into \<open>buf[size_read..max_size]\<close> and advances \<open>size_read\<close>. By the specification's
  failure semantics a zero-length read closes the socket and fails, an unrecoverable error
  fails, and \<^verbatim>\<open>EAGAIN\<close>/\<^verbatim>\<open>EWOULDBLOCK\<close> is retried later. The result is \<open>(ok, link, buf)\<close>.
\<close>

definition ReadToArray ::
  "LinkRecord \<Rightarrow> bytes \<Rightarrow> nat \<Rightarrow> recv_result \<Rightarrow> bool \<times> LinkRecord \<times> bytes" where
  "ReadToArray l recvbuf max_size r =
     (if max_size = size_read l then (True, l, recvbuf)
      else case r of
        RecvAgain \<Rightarrow> (True, l, recvbuf)
      | RecvFail \<Rightarrow> (False, l, recvbuf)
      | RecvData bs \<Rightarrow>
          (let got = take (size_sub max_size (size_read l)) bs in
           if got = [] then (False, Close l, recvbuf)
           else (True, l\<lparr>size_read := size_read l + length got\<rparr>,
                 store recvbuf (size_read l) got)))"

text \<open>
  Modelled from the spec: \<^verbatim>\<open>LinkRecord::WriteFromArray(buf, max_size)\<close> (absent) sends from
  \<open>buf[size_write..max_size]\<close> and advances \<open>size_write\<close>. The result is \<open>(ok, link)\<close>.
\<close>

definition WriteFromArray ::
  "LinkRecord \<Rightarrow> bytes \<Rightarrow> nat \<Rightarrow> send_result \<Rightarrow> bool \<times> LinkRecord" where
  "WriteFromArray l sendbuf max_size r =
     (case r of
        SendAgain \<Rightarrow> (True, l)
      | SendFail \<Rightarrow> (False, l)
      | SendLen k \<Rightarrow>
          (let len = min k (size_sub max_size (size_write l)) in
           (True, l\<lparr>size_write := size_write l + len,
                    wire_out := wire_out l @ take len (drop (size_write l) sendbuf)\<rparr>)))"

text \<open>
  Modelled from the spec: \<^verbatim>\<open>LinkRecord::ReadToRingBuffer(protect_start)\<close> (absent) reads
  from the link into the ring buffer, capped at \<open>protect_start + buffer_size\<close> so that no
  byte a requester has not consumed is overwritten; one call reads no further than the
  end of the ring. The call is given \<open>protect_start\<close> only: the size of the transfer is
  not among its arguments. The result is \<open>(ok, link)\<close>.
\<close>

definition ReadToRingBuffer :: "LinkRecord \<Rightarrow> nat \<Rightarrow> recv_result \<Rightarrow> bool \<times> LinkRecord" where
  "ReadToRingBuffer l protect_start r =
     (let offset = size_read l mod buffer_size l;
          nmax = min (size_sub (protect_start + buffer_size l) (size_read l))
                     (buffer_size l - offset)
      in if nmax = 0 then (True, l)
         else case r of
           RecvAgain \<Rightarrow> (True, l)
         | RecvFail \<Rightarrow> (False, l)
         | RecvData bs \<Rightarrow>
             (let got = take nmax bs in
              if got = [] then (False, Close l)
              else (True, l\<lparr>size_read := size_read l + length got,
                             buffer_head := store (buffer_head l) offset got\<rparr>)))"

subsection \<open>The streaming recovery transfer \<^verbatim>\<open>TryRecoverData\<close> (lines 476--570)\<close>

text \<open>The state of the transfer: the links and the contents of \<open>sendrecvbuf_\<close>.\<close>

type_synonym xfer = "LinkRecord list \<times> bytes"

text \<open>Lines 505 and 509: what keeps the loop going, and line 510--513: the write set.\<close>

definition watch_read :: "nat \<Rightarrow> cint \<Rightarrow> LinkRecord list \<Rightarrow> nat \<Rightarrow> bool" where
  "watch_read sz recv_link links i =
     (int i = sint recv_link \<and> size_read (links ! i) \<noteq> sz)"

definition pending_write :: "nat \<Rightarrow> bool list \<Rightarrow> LinkRecord list \<Rightarrow> nat \<Rightarrow> bool" where
  "pending_write sz req_in links i = (req_in ! i \<and> size_write (links ! i) \<noteq> sz)"

definition watch_write ::
  "RecoverType \<Rightarrow> nat \<Rightarrow> cint \<Rightarrow> bool list \<Rightarrow> LinkRecord list \<Rightarrow> nat \<Rightarrow> bool" where
  "watch_write role sz recv_link req_in links i =
     (pending_write sz req_in links i \<and>
      (role = kHaveData \<or>
       (role = kPassData \<and>
        size_read (links ! nat (sint recv_link)) \<noteq> size_write (links ! i))))"

definition finished :: "nat \<Rightarrow> cint \<Rightarrow> bool list \<Rightarrow> LinkRecord list \<Rightarrow> bool" where
  "finished sz recv_link req_in links =
     list_all (\<lambda>i. \<not> watch_read sz recv_link links i \<and> \<not> pending_write sz req_in links i)
       [0..<length links]"

text \<open>
  Modelled from the spec: the readiness-selection helper (absent). After \<^verbatim>\<open>Select\<close>,
  \<^verbatim>\<open>CheckRead\<close> and \<^verbatim>\<open>CheckWrite\<close> hold of the sockets that were watched and are ready;
  every socket is watched for exceptions.
\<close>

definition CheckRead :: "select_env \<Rightarrow> nat \<Rightarrow> cint \<Rightarrow> LinkRecord list \<Rightarrow> nat \<Rightarrow> bool" where
  "CheckRead env sz recv_link links i =
     (watch_read sz recv_link links i \<and> ready_read env i)"

definition CheckWrite ::
  "select_env \<Rightarrow> RecoverType \<Rightarrow> nat \<Rightarrow> cint \<Rightarrow> bool list \<Rightarrow> LinkRecord list \<Rightarrow> nat \<Rightarrow> bool" where
  "CheckWrite env role sz recv_link req_in links i =
     (watch_write role sz recv_link req_in links i \<and> ready_write env i)"

text \<open>Lines 524--535, the role \<open>kRequestData\<close>; \<open>wr\<close> is \<^verbatim>\<open>CheckWrite\<close> after this select.\<close>

definition request_write ::
  "select_env \<Rightarrow> (nat \<Rightarrow> bool) \<Rightarrow> nat \<Rightarrow> bool list \<Rightarrow> nat \<Rightarrow> xfer \<Rightarrow>
   ReturnType outcome option \<times> xfer" where
  "request_write env wr pid req_in i s =
     (let links = fst s; buf = snd s in
      if req_in ! i \<and> size_write (links ! i) \<noteq> size_read (links ! pid) \<and> wr i
      then (case WriteFromArray (links ! i) buf (size_read (links ! pid)) (send_res env i) of
              (ok, l) \<Rightarrow>
                if \<not> ok then (Some (Done kSockError), (links[i := l], buf))
                else (None, (links[i := l], buf)))
      else (None, s))"

definition request_handler ::
  "select_env \<Rightarrow> bool \<Rightarrow> (nat \<Rightarrow> bool) \<Rightarrow> nat \<Rightarrow> cint \<Rightarrow> bool list \<Rightarrow> xfer \<Rightarrow>
   ReturnType outcome option \<times> xfer" where
  "request_handler env rd wr sz recv_link req_in s =
     (let links = fst s; buf = snd s; pid = nat (sint recv_link) in
      case (if rd
            then (case ReadToArray (links ! pid) buf sz (recv_res env pid) of
                    (ok, l, buf') \<Rightarrow>
                      if \<not> ok then (Some (Done kSockError), (links[pid := l], buf'))
                      else (None, (links[pid := l], buf')))
            else (None, s)) of
        (Some r, s') \<Rightarrow> (Some r, s')
      | (None, s') \<Rightarrow>
          for_links (request_write env wr pid req_in) [0..<length links] s')"

text \<open>Lines 536--542, the role \<open>kHaveData\<close>.\<close>

definition have_write ::
  "select_env \<Rightarrow> (nat \<Rightarrow> bool) \<Rightarrow> nat \<Rightarrow> bool list \<Rightarrow> nat \<Rightarrow> xfer \<Rightarrow>
   ReturnType outcome option \<times> xfer" where
  "have_write env wr sz req_in i s =
     (let links = fst s; buf = snd s in
      if req_in ! i \<and> wr i
      then (case WriteFromArray (links ! i) buf sz (send_res env i) of
              (ok, l) \<Rightarrow>
                if \<not> ok then (Some (Done kSockError), (links[i := l], buf))
                else (None, (links[i := l], buf)))
      else (None, s))"

text \<open>
  Lines 543--567, the role \<open>kPassData\<close>: \<open>min_write\<close> (lines 547--550), the read into the
  ring buffer and the writes from it. \<^verbatim>\<open>size_write % buffer_size\<close> has no meaning when
  \<open>buffer_size\<close> is 0.
\<close>

definition min_write :: "nat \<Rightarrow> bool list \<Rightarrow> LinkRecord list \<Rightarrow> nat" where
  "min_write sz req_in links =
     fold (\<lambda>i m. if req_in ! i then min (size_write (links ! i)) m else m)
       [0..<length links] sz"

definition pass_write ::
  "select_env \<Rightarrow> (nat \<Rightarrow> bool) \<Rightarrow> nat \<Rightarrow> bool list \<Rightarrow> nat \<Rightarrow> xfer \<Rightarrow>
   ReturnType outcome option \<times> xfer" where
  "pass_write env wr pid req_in i s =
     (let links = fst s; buf = snd s; bsize = buffer_size (links ! pid) in
      if req_in ! i \<and> wr i \<and> size_read (links ! pid) \<noteq> size_write (links ! i)
      then if bsize = 0 then (Some (Abort (Undefined ''size_write % buffer_size'')), s)
           else
             (let start = size_write (links ! i) mod bsize;
                  nwrite = min (bsize - start)
                               (size_sub (size_read (links ! pid)) (size_write (links ! i)))
              in case send_res env i of
                   SendLen k \<Rightarrow>
                     (let len = min k nwrite;
                          l = (links ! i)\<lparr>size_write := size_write (links ! i) + len,
                                wire_out := wire_out (links ! i) @
                                  take len (drop start (buffer_head (links ! pid)))\<rparr>
                      in (None, (links[i := l], buf)))
                 | SendAgain \<Rightarrow> (None, s)
                 | SendFail \<Rightarrow> (Some (Done kSockError), s))
      else (None, s))"

definition pass_handler ::
  "select_env \<Rightarrow> bool \<Rightarrow> (nat \<Rightarrow> bool) \<Rightarrow> nat \<Rightarrow> cint \<Rightarrow> bool list \<Rightarrow> xfer \<Rightarrow>
   ReturnType outcome option \<times> xfer" where
  "pass_handler env rd wr sz recv_link req_in s =
     (let links = fst s; buf = snd s; pid = nat (sint recv_link) in
      case (if rd
            then (let m = min_write sz req_in links in
                  if \<not> m \<le> size_read (links ! pid)
                  then (Some (Abort (AssertFailed ''boundary check'')), s)
                  else (case ReadToRingBuffer (links ! pid) m (recv_res env pid) of
                          (ok, l) \<Rightarrow>
                            if \<not> ok then (Some (Done kSockError), (links[pid := l], buf))
                            else (None, (links[pid := l], buf))))
            else (None, s)) of
        (Some r, s') \<Rightarrow> (Some r, s')
      | (None, s') \<Rightarrow>
          for_links (pass_write env wr pid req_in) [0..<length links] s')"

text \<open>
  Lines 519--567: one iteration of the event loop after the test of \<open>finished\<close>. The
  answers of \<^verbatim>\<open>CheckRead\<close> and \<^verbatim>\<open>CheckWrite\<close> are those of this iteration's select, taken
  on the links as they were when the sets were filled. The role \<open>kRequestData\<close> reads
  \<open>links[recv_link]\<close>, which has no meaning when \<open>recv_link\<close> is not the index of a link.
\<close>

definition TryRecoverData_iter ::
  "RecoverType \<Rightarrow> nat \<Rightarrow> cint \<Rightarrow> bool list \<Rightarrow> select_env \<Rightarrow> xfer \<Rightarrow>
   ReturnType outcome option \<times> xfer" where
  "TryRecoverData_iter role sz recv_link req_in env s =
     (let links = fst s;
          rd = CheckRead env sz recv_link links (nat (sint recv_link));
          wr = CheckWrite env role sz recv_link req_in links
      in if list_ex (ready_except env) [0..<length links]
         then (Some (Done kGetExcept), s)
         else (case role of
                 kRequestData \<Rightarrow>
                   if \<not> nat (sint recv_link) < length links
                   then (Some (Abort (Undefined ''links[recv_link] out of range'')), s)
                   else request_handler env rd wr sz recv_link req_in s
               | kHaveData \<Rightarrow>
                   for_links (have_write env wr sz req_in) [0..<length links] s
               | kPassData \<Rightarrow> pass_handler env rd wr sz recv_link req_in s))"

text \<open>
  Lines 501--568: the event loop, driven by the script of select rounds. In the role
  \<open>kPassData\<close> the loop that fills the write set reads \<open>links[recv_link]\<close> for every link
  with a pending write; when \<open>recv_link\<close> is not the index of a link and the loop is not
  finished, there is such a link.
\<close>

fun TryRecoverData_loop ::
  "RecoverType \<Rightarrow> nat \<Rightarrow> cint \<Rightarrow> bool list \<Rightarrow> select_env list \<Rightarrow> xfer \<Rightarrow>
   ReturnType outcome \<times> xfer" where
  "TryRecoverData_loop role sz recv_link req_in [] s =
     (if finished sz recv_link req_in (fst s) then (Done kSuccess, s)
      else if role = kPassData \<and> \<not> nat (sint recv_link) < length (fst s)
      then (Abort (Undefined ''links[recv_link] out of range''), s)
      else (Blocked, s))"
| "TryRecoverData_loop role sz recv_link req_in (env # rest) s =
     (if finished sz recv_link req_in (fst s) then (Done kSuccess, s)
      else if role = kPassData \<and> \<not> nat (sint recv_link) < length (fst s)
      then (Abort (Undefined ''links[recv_link] out of range''), s)
      else (case TryRecoverData_iter role sz recv_link req_in env s of
              (Some r, s') \<Rightarrow> (r, s')
            | (None, s') \<Rightarrow> TryRecoverData_loop role sz recv_link req_in rest s'))"

text \<open>Lines 487--493: is there anything to do, and no request may come on \<open>recv_link\<close>.\<close>

definition req_data_step :: "cint \<Rightarrow> bool list \<Rightarrow> nat \<Rightarrow> bool \<Rightarrow> error option \<times> bool" where
  "req_data_step recv_link req_in i req_data =
     (if req_in ! i
      then (if \<not> int i \<noteq> sint recv_link then (Some (AssertFailed ''TryDecideRouting''), req_data)
            else (None, True))
      else (None, req_data))"

text \<open>\<^verbatim>\<open>TryRecoverData\<close>, with the script of the select rounds of its event loop.\<close>

definition TryRecoverData ::
  "RecoverType \<Rightarrow> bytes \<Rightarrow> nat \<Rightarrow> cint \<Rightarrow> bool list \<Rightarrow> select_env list \<Rightarrow>
   LinkRecord list \<Rightarrow> ReturnType outcome \<times> xfer" where
  "TryRecoverData role sendrecvbuf sz recv_link req_in script links =
     (if length links = 0 \<or> sz = 0 then (Done kSuccess, (links, sendrecvbuf))
      else if \<not> length req_in = length links
      then (Abort (AssertFailed ''TryRecoverData''), (links, sendrecvbuf))
      else (case for_links (req_data_step recv_link req_in) [0..<length links]
                   (role = kRequestData) of
              (Some e, _) \<Rightarrow> (Abort e, (links, sendrecvbuf))
            | (None, req_data) \<Rightarrow>
                if \<not> req_data then (Done kSuccess, (links, sendrecvbuf))
                else if \<not> (0 \<le> sint recv_link \<or> role = kHaveData)
                then (Abort (AssertFailed ''recv_link must be active''), (links, sendrecvbuf))
                else TryRecoverData_loop role sz recv_link req_in script
                       (map ResetSize links, sendrecvbuf)))"

subsection \<open>The link reset handshake \<^verbatim>\<open>TryResetLinks\<close> (lines 200--312)\<close>

text \<open>
  Modelled from the spec: the socket layer is not in the sources. The answer of the
  network to one socket call of the handshake (\<^verbatim>\<open>Send\<close>, \<^verbatim>\<open>Recv\<close>, \<^verbatim>\<open>AtMark\<close>): the value
  the call returns, \<^verbatim>\<open>errno\<close> when that value is \<open>-1\<close>, and whether the socket has gone
  bad by this call. A socket that has gone bad, or that was closed, stays bad:
  \<^verbatim>\<open>BadSocket()\<close> is the field \<open>sock_bad\<close>.
\<close>

record sock_ans =
  ans_len :: int
  ans_errno :: cint
  ans_breaks :: bool

definition answered :: "sock_ans \<Rightarrow> LinkRecord \<Rightarrow> LinkRecord" where
  "answered a l = (if ans_breaks a then l\<lparr>sock_bad := True\<rparr> else l)"

text \<open>
  The constants of the headers that are not in the sources: the three wire symbols of the
  reset channel, the two error numbers, and the size \<^verbatim>\<open>InitBuffer\<close> gives to the buffer of
  a link.
\<close>

record reset_consts =
  kOOBReset :: cchar
  kResetMark :: cchar
  kResetAck :: cchar
  EAGAIN :: cint
  EWOULDBLOCK :: cint
  init_size :: nat

text \<open>Modelled from the spec: \<^verbatim>\<open>LinkRecord::InitBuffer\<close> (absent) allocates the buffer.\<close>

definition InitBuffer :: "nat \<Rightarrow> LinkRecord \<Rightarrow> LinkRecord" where
  "InitBuffer n l = l\<lparr>buffer_size := n, buffer_head := replicate n 0\<rparr>"

text \<open>
  The answers of the network to a whole handshake: for every round of the first loop and
  every link the answers to the two sends; for every round of the second loop and every
  link the answers to \<^verbatim>\<open>AtMark\<close>, \<^verbatim>\<open>Recv\<close> and \<^verbatim>\<open>AtMark\<close>; for every link the answers of
  the synchronization (the \<^verbatim>\<open>Recv\<close>, the byte received, \<^verbatim>\<open>AtMark\<close> and the sends of the
  acknowledgement) and of the wait for the acknowledgement (the \<^verbatim>\<open>Recv\<close> and the byte).
\<close>

record reset_env =
  mark_rounds :: "(nat \<Rightarrow> sock_ans \<times> sock_ans) list"
  drain_rounds :: "(nat \<Rightarrow> sock_ans \<times> sock_ans \<times> sock_ans) list"
  sync_ans :: "nat \<Rightarrow> sock_ans \<times> cchar \<times> sock_ans \<times> sock_ans list"
  ack_ans :: "nat \<Rightarrow> sock_ans \<times> cchar"

text \<open>Lines 210--221: the out-of-band byte and the mark, on one link.\<close>

definition send_marks :: "sock_ans \<times> sock_ans \<Rightarrow> LinkRecord \<Rightarrow> LinkRecord" where
  "send_marks a l =
     (if sock_bad l then l
      else
        (let l1 = (if size_write l = 0
                   then (let l' = answered (fst a) l in
                         if ans_len (fst a) = 1 then l'\<lparr>size_write := 1\<rparr> else l')
                   else l);
             l2 = (if size_write l1 = 1
                   then (let l' = answered (snd a) l1 in
                         if ans_len (snd a) = 1 then l'\<lparr>size_write := 2\<rparr> else l')
                   else l1)
         in l2))"

definition mark_body :: "(nat \<Rightarrow> sock_ans \<times> sock_ans) \<Rightarrow> LinkRecord list \<Rightarrow> LinkRecord list" where
  "mark_body r ls = map (\<lambda>i. send_marks (r i) (ls ! i)) [0..<length ls]"

definition mark_finished :: "LinkRecord list \<Rightarrow> bool" where
  "mark_finished ls = list_all (\<lambda>l. \<not> (size_write l \<noteq> 2 \<and> \<not> sock_bad l)) ls"

text \<open>
  Lines 208--233. The body of the loop asks the network nothing when every link is bad or
  has sent both bytes, and the loop then ends; otherwise it needs the answers of a round.
\<close>

fun mark_loop ::
  "(nat \<Rightarrow> sock_ans \<times> sock_ans) list \<Rightarrow> LinkRecord list \<Rightarrow> unit outcome \<times> LinkRecord list" where
  "mark_loop [] ls = (if mark_finished ls then (Done (), ls) else (Blocked, ls))"
| "mark_loop (r # rest) ls =
     (let ls' = mark_body r ls in
      if mark_finished ls' then (Done (), ls') else mark_loop rest ls')"

text \<open>
  Lines 241--254: read and discard up to the mark, on one link. The bytes read are
  discarded; the model leaves the contents of the buffer as they are.
\<close>

definition drain_link :: "sock_ans \<times> sock_ans \<times> sock_ans \<Rightarrow> LinkRecord \<Rightarrow> error + LinkRecord" where
  "drain_link a l =
     (case a of
        (atmark, rcv, atmark2) \<Rightarrow>
          if size_read l = 0 then
            (let l1 = answered atmark l in
             if ans_len atmark < 0
             then (if \<not> sock_bad l1 then Inl (AssertFailed ''must already gone bad'')
                   else Inr l1)
             else if ans_len atmark > 0 then Inr (l1\<lparr>size_read := 1\<rparr>)
             else
               (let l2 = answered rcv l1;
                    l3 = answered atmark2 l2;
                    l4 = (if ans_len atmark2 \<noteq> 0 then l3\<lparr>size_read := 1\<rparr> else l3)
                in Inr (if ans_len rcv = 0 then Close l4 else l4)))
          else Inr l)"

definition drain_step ::
  "(nat \<Rightarrow> sock_ans \<times> sock_ans \<times> sock_ans) \<Rightarrow> nat \<Rightarrow> LinkRecord list \<Rightarrow>
   error option \<times> LinkRecord list" where
  "drain_step r i ls =
     (case drain_link (r i) (ls ! i) of
        Inl e \<Rightarrow> (Some e, ls)
      | Inr l \<Rightarrow> (None, ls[i := l]))"

definition drain_finished :: "LinkRecord list \<Rightarrow> bool" where
  "drain_finished ls = list_all (\<lambda>l. \<not> (size_read l = 0 \<and> \<not> sock_bad l)) ls"

text \<open>
  Lines 239--265. The body asks the network nothing when no link has \<open>size_read = 0\<close>.
\<close>

fun drain_loop ::
  "(nat \<Rightarrow> sock_ans \<times> sock_ans \<times> sock_ans) list \<Rightarrow> LinkRecord list \<Rightarrow>
   unit outcome \<times> LinkRecord list" where
  "drain_loop [] ls =
     (if list_all (\<lambda>l. size_read l \<noteq> 0) ls then (Done (), ls) else (Blocked, ls))"
| "drain_loop (r # rest) ls =
     (case for_links (drain_step r) [0..<length ls] ls of
        (Some e, ls') \<Rightarrow> (Abort e, ls')
      | (None, ls') \<Rightarrow>
          if drain_finished ls' then (Done (), ls') else drain_loop rest ls')"

text \<open>Lines 283--289: send the acknowledgement until it is sent or the send fails.\<close>

fun send_ack :: "reset_consts \<Rightarrow> sock_ans list \<Rightarrow> LinkRecord \<Rightarrow> LinkRecord outcome" where
  "send_ack c [] l = Blocked"
| "send_ack c (a # rest) l =
     (let l' = answered a l in
      if ans_len a = 1 then Done l'
      else if ans_len a = - 1 \<and> (ans_errno a \<noteq> EAGAIN c \<and> ans_errno a \<noteq> EWOULDBLOCK c)
      then Done l'
      else send_ack c rest l')"

text \<open>Lines 269--290: the synchronization on one link, with blocking I/O.\<close>

definition sync_link ::
  "reset_consts \<Rightarrow> sock_ans \<times> cchar \<times> sock_ans \<times> sock_ans list \<Rightarrow> LinkRecord \<Rightarrow>
   LinkRecord outcome" where
  "sync_link c a l =
     (case a of
        (rcv, oob_mark, atmark, sends) \<Rightarrow>
          if \<not> sock_bad l then
            (let l1 = answered rcv l in
             if ans_len rcv = 0 then Done (Close l1)
             else if ans_len rcv > 0 then
               (if \<not> oob_mark = kResetMark c then Abort (AssertFailed ''wrong oob msg'')
                else
                  (let l2 = answered atmark l1 in
                   if \<not> ans_len atmark \<noteq> 1
                   then Abort (AssertFailed ''should already read past mark'')
                   else send_ack c sends l2))
             else
               (if \<not> (ans_errno rcv \<noteq> EAGAIN c \<or> ans_errno rcv \<noteq> EWOULDBLOCK c)
                then Abort (AssertFailed ''BUG'')
                else send_ack c sends l1))
          else Done l)"

definition sync_step ::
  "reset_consts \<Rightarrow> (nat \<Rightarrow> sock_ans \<times> cchar \<times> sock_ans \<times> sock_ans list) \<Rightarrow> nat \<Rightarrow>
   LinkRecord list \<Rightarrow> unit outcome option \<times> LinkRecord list" where
  "sync_step c r i ls =
     (case sync_link c (r i) (ls ! i) of
        Done l \<Rightarrow> (None, ls[i := l])
      | Abort e \<Rightarrow> (Some (Abort e), ls)
      | Blocked \<Rightarrow> (Some Blocked, ls))"

text \<open>Lines 294--306: wait for the acknowledgement on one link.\<close>

definition ack_link :: "reset_consts \<Rightarrow> sock_ans \<times> cchar \<Rightarrow> LinkRecord \<Rightarrow> error + LinkRecord" where
  "ack_link c a l =
     (case a of
        (rcv, ack) \<Rightarrow>
          if \<not> sock_bad l then
            (let l1 = answered rcv l in
             if ans_len rcv = 0 then Inr (Close l1)
             else if ans_len rcv > 0 then
               (if \<not> ack = kResetAck c then Inl (AssertFailed ''wrong Ack MSG'') else Inr l1)
             else
               (if \<not> (ans_errno rcv \<noteq> EAGAIN c \<or> ans_errno rcv \<noteq> EWOULDBLOCK c)
                then Inl (AssertFailed ''BUG'')
                else Inr l1))
          else Inr l)"

definition ack_step ::
  "reset_consts \<Rightarrow> (nat \<Rightarrow> sock_ans \<times> cchar) \<Rightarrow> nat \<Rightarrow> LinkRecord list \<Rightarrow>
   unit outcome option \<times> LinkRecord list" where
  "ack_step c r i ls =
     (case ack_link c (r i) (ls ! i) of
        Inl e \<Rightarrow> (Some (Abort e), ls)
      | Inr l \<Rightarrow> (None, ls[i := l]))"

text \<open>
  Lines 202--265: the handshake up to the end of the drain. The wait for the exception of
  lines 234--238 changes nothing.
\<close>

definition TryResetLinks_drain ::
  "reset_consts \<Rightarrow> reset_env \<Rightarrow> LinkRecord list \<Rightarrow> unit outcome \<times> LinkRecord list" where
  "TryResetLinks_drain c env ls =
     (case mark_loop (mark_rounds env) (map (\<lambda>l. ResetSize (InitBuffer (init_size c) l)) ls) of
        (Done u, ls1) \<Rightarrow> drain_loop (drain_rounds env) ls1
      | (Abort e, ls1) \<Rightarrow> (Abort e, ls1)
      | (Blocked, ls1) \<Rightarrow> (Blocked, ls1))"

text \<open>Lines 267--307: the synchronization and the wait for the acknowledgements.\<close>

definition TryResetLinks_sync ::
  "reset_consts \<Rightarrow> reset_env \<Rightarrow> LinkRecord list \<Rightarrow> unit outcome \<times> LinkRecord list" where
  "TryResetLinks_sync c env ls =
     (case for_links (sync_step c (sync_ans env)) [0..<length ls] ls of
        (Some r, ls1) \<Rightarrow> (r, ls1)
      | (None, ls1) \<Rightarrow>
          (case for_links (ack_step c (ack_ans env)) [0..<length ls1] ls1 of
             (Some r, ls2) \<Rightarrow> (r, ls2)
           | (None, ls2) \<Rightarrow> (Done (), ls2)))"

text \<open>Lines 308--311: the return code.\<close>

definition reset_code :: "LinkRecord list \<Rightarrow> ReturnType" where
  "reset_code ls =
     (case for_links (\<lambda>i u. if sock_bad (ls ! i) then (Some kSockError, u) else (None, u))
             [0..<length ls] () of
        (Some r, u) \<Rightarrow> r
      | (None, u) \<Rightarrow> kSuccess)"

definition TryResetLinks ::
  "reset_consts \<Rightarrow> reset_env \<Rightarrow> LinkRecord list \<Rightarrow> ReturnType outcome \<times> LinkRecord list" where
  "TryResetLinks c env ls =
     (case TryResetLinks_drain c env ls of
        (Done u, ls1) \<Rightarrow>
          (case TryResetLinks_sync c env ls1 of
             (Done u, ls2) \<Rightarrow> (Done (reset_code ls2), ls2)
           | (Abort e, ls2) \<Rightarrow> (Abort e, ls2)
           | (Blocked, ls2) \<Rightarrow> (Blocked, ls2))
      | (Abort e, ls1) \<Rightarrow> (Abort e, ls1)
      | (Blocked, ls1) \<Rightarrow> (Blocked, ls1))"

subsection \<open>The result buffer and the engine\<close>

text \<open>
  Modelled from the spec: \<^verbatim>\<open>ResultBuffer\<close> is declared in \<^verbatim>\<open>allreduce_robust.h\<close>, which is
  not in the sources. The specification describes an ordered sequence of entries
  \<open>(seqno, type_nbytes, count, payload)\<close> and a scratch region at its tail: \<^verbatim>\<open>AllocTemp\<close>
  reserves the scratch, \<^verbatim>\<open>PushTemp\<close> commits it as the new last entry, \<^verbatim>\<open>DropLast\<close>
  discards the most recent entry, \<^verbatim>\<open>Query\<close> returns the payload and its length if the
  sequence number is found and null otherwise, \<^verbatim>\<open>LastSeqNo\<close> returns \<open>-1\<close> if the buffer is
  empty, and \<^verbatim>\<open>Clear\<close> removes all entries.
\<close>

record ResultEntry =
  entry_seqno :: cint
  entry_type_nbytes :: nat
  entry_count :: nat
  entry_data :: bytes

record ResultBuffer =
  entries :: "ResultEntry list"
  temp :: bytes

definition LastSeqNo :: "ResultBuffer \<Rightarrow> cint" where
  "LastSeqNo rb = (if entries rb = [] then - 1 else entry_seqno (last (entries rb)))"

definition DropLast :: "ResultBuffer \<Rightarrow> ResultBuffer" where
  "DropLast rb = rb\<lparr>entries := butlast (entries rb)\<rparr>"

definition AllocTemp :: "nat \<Rightarrow> nat \<Rightarrow> ResultBuffer \<Rightarrow> ResultBuffer" where
  "AllocTemp type_nbytes count rb = rb\<lparr>temp := replicate (type_nbytes * count) 0\<rparr>"

definition PushTemp :: "cint \<Rightarrow> nat \<Rightarrow> nat \<Rightarrow> ResultBuffer \<Rightarrow> ResultBuffer" where
  "PushTemp seqno type_nbytes count rb =
     rb\<lparr>entries := entries rb @
          [\<lparr>entry_seqno = seqno, entry_type_nbytes = type_nbytes, entry_count = count,
            entry_data = take (type_nbytes * count) (temp rb)\<rparr>]\<rparr>"

definition Query :: "cint \<Rightarrow> ResultBuffer \<Rightarrow> (bytes \<times> nat) option" where
  "Query seqno rb =
     (case find (\<lambda>e. entry_seqno e = seqno) (entries rb) of
        None \<Rightarrow> None
      | Some e \<Rightarrow> Some (entry_data e, entry_type_nbytes e * entry_count e))"

definition Clear :: "ResultBuffer \<Rightarrow> ResultBuffer" where
  "Clear rb = rb\<lparr>entries := []\<rparr>"

text \<open>
  The members of \<^verbatim>\<open>AllreduceRobust\<close> (and of its base) that the functions of this file
  read and write.
\<close>

record AllreduceRobust =
  rank :: cint
  result_buffer_round :: cint
  seq_counter :: cint
  version_number :: cint
  global_checkpoint :: bytes
  resbuf :: ResultBuffer
  links :: "LinkRecord list"

text \<open>
  What the network answers during one recovery (\<^verbatim>\<open>TryGetResult\<close> or
  \<^verbatim>\<open>TryLoadCheckPoint\<close>): the two message passes and the select rounds of the transfer.
\<close>

record recover_env =
  dist_net :: "ReturnType \<times> (cint \<times> nat) list"
  req_net :: "ReturnType \<times> cchar list"
  transfer :: "select_env list"

subsection \<open>\<^verbatim>\<open>CheckAndRecover\<close> (lines 320--342)\<close>

text \<open>
  Modelled from the spec: \<^verbatim>\<open>ReConnectLinks\<close> (base engine, absent) rebuilds the peer
  topology after a failure; the rebuilt links are the network's.
\<close>

definition ReConnectLinks :: "LinkRecord list \<Rightarrow> LinkRecord list \<Rightarrow> LinkRecord list" where
  "ReConnectLinks old rebuilt = rebuilt"

text \<open>The statements after the first \<^verbatim>\<open>return false\<close> are never executed.\<close>

definition CheckAndRecover ::
  "ReturnType \<Rightarrow> LinkRecord list \<Rightarrow> AllreduceRobust \<Rightarrow> bool \<times> AllreduceRobust" where
  "CheckAndRecover err_type rebuilt st =
     (if err_type = kSuccess then (True, st)
      else (False,
            st\<lparr>links := ReConnectLinks
                  (map (\<lambda>l. if \<not> sock_bad l then Close l else l) (links st)) rebuilt\<rparr>))"

subsection \<open>\<^verbatim>\<open>TryLoadCheckPoint\<close> and \<^verbatim>\<open>TryGetResult\<close> (lines 582--623)\<close>

text \<open>\<^verbatim>\<open>std::string::resize\<close>: cut, or fill with zero bytes.\<close>

definition resize :: "bytes \<Rightarrow> nat \<Rightarrow> bytes" where
  "resize s n = take n s @ replicate (n - length s) 0"

text \<open>
  Both functions return their code only after \<^verbatim>\<open>TryDecideRouting\<close> has returned
  \<open>kSuccess\<close>, which sets \<open>recv_link\<close> and \<open>req_in\<close>.
\<close>

definition TryLoadCheckPoint ::
  "AllreduceRobust \<Rightarrow> bool \<Rightarrow> recover_env \<Rightarrow> ReturnType outcome \<times> AllreduceRobust" where
  "TryLoadCheckPoint st requester env =
     (let role = (if requester then kRequestData else kHaveData);
          sz = length (global_checkpoint st)
      in case TryDecideRouting role sz (dist_net env) (req_net env) of
           Inl e \<Rightarrow> (Abort e, st)
         | Inr (succ, sz', routed) \<Rightarrow>
             if succ \<noteq> kSuccess then (Done succ, st)
             else (case routed of
                     None \<Rightarrow> (Abort (Undefined ''recv_link is not set''), st)
                   | Some (recv_link, req_in) \<Rightarrow>
                       (let st1 = (if role = kRequestData
                                   then st\<lparr>global_checkpoint :=
                                          resize (global_checkpoint st) sz'\<rparr>
                                   else st)
                        in if sz' = 0 then (Done kSuccess, st1)
                           else (case TryRecoverData role (global_checkpoint st1) sz' recv_link
                                        req_in (transfer env) (links st1) of
                                   (r, (links', buf')) \<Rightarrow>
                                     (r, st1\<lparr>links := links',
                                             global_checkpoint := buf'\<rparr>)))))"

text \<open>
  Lines 611--616 of \<^verbatim>\<open>TryGetResult\<close>: the role, the buffer and the size the rest of the
  function works with. The null pointer is the empty buffer.
\<close>

definition TryGetResult_role ::
  "AllreduceRobust \<Rightarrow> bytes \<Rightarrow> nat \<Rightarrow> cint \<Rightarrow> bool \<Rightarrow> RecoverType \<times> bytes \<times> nat" where
  "TryGetResult_role st sendrecvbuf sz seqno requester =
     (if \<not> requester
      then (case Query seqno (resbuf st) of
              Some (p, n) \<Rightarrow> (kHaveData, p, n)
            | None \<Rightarrow> (kPassData, [], sz))
      else (kRequestData, sendrecvbuf, sz))"

text \<open>
  \<^verbatim>\<open>TryGetResult\<close>. The third component of the result is the caller's buffer: the transfer
  writes to it only when the caller is the requester; otherwise \<open>sendrecvbuf\<close> points into
  the result buffer, or nowhere.
\<close>

definition TryGetResult ::
  "AllreduceRobust \<Rightarrow> bytes \<Rightarrow> nat \<Rightarrow> cint \<Rightarrow> bool \<Rightarrow> recover_env \<Rightarrow>
   ReturnType outcome \<times> AllreduceRobust \<times> bytes" where
  "TryGetResult st sendrecvbuf sz seqno requester env =
     (case TryGetResult_role st sendrecvbuf sz seqno requester of
        (role, buf, sz0) \<Rightarrow>
          (case TryDecideRouting role sz0 (dist_net env) (req_net env) of
             Inl e \<Rightarrow> (Abort e, st, sendrecvbuf)
           | Inr (succ, sz', routed) \<Rightarrow>
               if succ \<noteq> kSuccess then (Done succ, st, sendrecvbuf)
               else (case routed of
                       None \<Rightarrow> (Abort (Undefined ''recv_link is not set''), st, sendrecvbuf)
                     | Some (recv_link, req_in) \<Rightarrow>
                         if \<not> sz' \<noteq> 0
                         then (Abort (CheckFailed ''zero size check point is not allowed''),
                               st, sendrecvbuf)
                         else (case TryRecoverData role buf sz' recv_link req_in
                                      (transfer env) (links st) of
                                 (r, (links', buf')) \<Rightarrow>
                                   (r, st\<lparr>links := links'\<rparr>,
                                    if requester then buf' else sendrecvbuf)))))"

subsection \<open>The action summary and \<^verbatim>\<open>RecoverExec\<close> (lines 641--709)\<close>

text \<open>
  Modelled from the spec: \<^verbatim>\<open>ActionSummary\<close> is declared in \<^verbatim>\<open>allreduce_robust.h\<close> (absent).
  The specification gives it three flag bits, an integer sequence number and the derived
  predicate \<open>diff_seq\<close>; a fresh summary has the flags of the request and no \<open>diff_seq\<close>.
  The constant \<^verbatim>\<open>kMaxSeq\<close> of the same header is an argument of the functions that use it.
\<close>

datatype action_flag = kLoadCheck | kCheckPoint | kCheckAck

record ActionSummary =
  load_check :: bool
  check_point :: bool
  check_ack :: bool
  diff_seq :: bool
  min_seqno :: cint

definition ActionSummary_new :: "action_flag set \<Rightarrow> cint \<Rightarrow> ActionSummary" where
  "ActionSummary_new flag seqno =
     \<lparr>load_check = (kLoadCheck \<in> flag), check_point = (kCheckPoint \<in> flag),
      check_ack = (kCheckAck \<in> flag), diff_seq = False, min_seqno = seqno\<rparr>"

text \<open>
  What the network answers during one round of the loop of \<^verbatim>\<open>RecoverExec\<close>: the return
  code of \<^verbatim>\<open>TryAllreduce\<close> on the action summary with the reduced summary, the answers to
  the recovery this round may run, and the links \<^verbatim>\<open>ReConnectLinks\<close> builds if this round
  calls it (a round calls it at most once).
\<close>

record round_env =
  summary :: "ReturnType \<times> ActionSummary"
  recover :: recover_env
  relinks :: "LinkRecord list"

text \<open>The engine and the contents of the caller's buffer \<open>buf\<close>.\<close>

type_synonym rstate = "AllreduceRobust \<times> bytes"

text \<open>
  Lines 661--663 and 688--690: load the checkpoint; \<open>None\<close> is the next round of the loop
  (\<^verbatim>\<open>continue\<close>, or the end of the loop body).
\<close>

definition RecoverExec_load ::
  "ActionSummary \<Rightarrow> round_env \<Rightarrow> rstate \<Rightarrow> bool outcome option \<times> rstate" where
  "RecoverExec_load req env s =
     (case TryLoadCheckPoint (fst s) (load_check req) (recover env) of
        (Done r, st) \<Rightarrow>
          (case CheckAndRecover r (relinks env) st of
             (ok, st') \<Rightarrow>
               if \<not> ok then (None, (st', snd s))
               else if load_check req then (Some (Done True), (st', snd s))
               else (None, (st', snd s)))
      | (Abort e, st) \<Rightarrow> (Some (Abort e), (st, snd s))
      | (Blocked, st) \<Rightarrow> (Some Blocked, (st, snd s)))"

text \<open>Lines 675--677 and 695--697: get the result of the lagging sequence number.\<close>

definition RecoverExec_get ::
  "ActionSummary \<Rightarrow> ActionSummary \<Rightarrow> nat \<Rightarrow> round_env \<Rightarrow> rstate \<Rightarrow>
   bool outcome option \<times> rstate" where
  "RecoverExec_get req act sz env s =
     (let requester = (min_seqno req = min_seqno act) in
      case TryGetResult (fst s) (snd s) sz (min_seqno act) requester (recover env) of
        (Done r, st, buf) \<Rightarrow>
          (case CheckAndRecover r (relinks env) st of
             (ok, st') \<Rightarrow>
               if \<not> ok then (None, (st', buf))
               else if requester then (Some (Done True), (st', buf))
               else (None, (st', buf)))
      | (Abort e, st, buf) \<Rightarrow> (Some (Abort e), (st, buf))
      | (Blocked, st, buf) \<Rightarrow> (Some Blocked, (st, buf)))"

text \<open>Lines 648--705: one round of the loop.\<close>

definition RecoverExec_round ::
  "cint \<Rightarrow> ActionSummary \<Rightarrow> nat \<Rightarrow> round_env \<Rightarrow> rstate \<Rightarrow> bool outcome option \<times> rstate" where
  "RecoverExec_round kMaxSeq req sz env s0 =
     (case CheckAndRecover (fst (summary env)) (relinks env) (fst s0) of
        (ok, st) \<Rightarrow>
          if \<not> ok then (None, (st, snd s0))
          else
            (let act = snd (summary env); s = (st, snd s0) in
             if check_ack act then
               (if check_point act then
                  (if \<not> \<not> diff_seq act
                   then (Some (Abort (AssertFailed
                     ''check ack & check pt  cannot occur together with normal ops'')), s)
                   else if check_point req then (Some (Done True), s)
                   else (None, s))
                else if load_check act then RecoverExec_load req env s
                else if check_ack req then (Some (Done True), s)
                else (None, s))
             else
               (if check_point act then
                  (if diff_seq act then
                     (if \<not> min_seqno act \<noteq> kMaxSeq
                      then (Some (Abort (AssertFailed ''min seq bug'')), s)
                      else RecoverExec_get req act sz env s)
                   else if check_point req then (Some (Done True), s)
                   else (None, s))
                else
                  (if load_check act then
                     (if \<not> diff_seq act then (Some (Done False), s)
                      else RecoverExec_load req env s)
                   else
                     (if \<not> min_seqno act \<noteq> kMaxSeq
                      then (Some (Abort (AssertFailed ''min seq bug'')), s)
                      else if diff_seq act then RecoverExec_get req act sz env s
                      else (Some (Done False), s))))))"

fun RecoverExec_loop ::
  "cint \<Rightarrow> ActionSummary \<Rightarrow> nat \<Rightarrow> round_env list \<Rightarrow> rstate \<Rightarrow> bool outcome \<times> rstate" where
  "RecoverExec_loop kMaxSeq req sz [] s = (Blocked, s)"
| "RecoverExec_loop kMaxSeq req sz (env # rest) s =
     (case RecoverExec_round kMaxSeq req sz env s of
        (Some r, s') \<Rightarrow> (r, s')
      | (None, s') \<Rightarrow> RecoverExec_loop kMaxSeq req sz rest s')"

text \<open>
  \<^verbatim>\<open>RecoverExec(buf, size, flag, seqno)\<close> on the engine \<open>st\<close>, with the script of the
  rounds. The result is how the call ends, the engine and the contents of \<open>buf\<close>.
\<close>

definition RecoverExec ::
  "cint \<Rightarrow> bytes \<Rightarrow> nat \<Rightarrow> action_flag set \<Rightarrow> cint \<Rightarrow> round_env list \<Rightarrow> AllreduceRobust \<Rightarrow>
   bool outcome \<times> rstate" where
  "RecoverExec kMaxSeq buf sz flag seqno script st =
     (if flag \<noteq> {} \<and> \<not> seqno = kMaxSeq
      then (Abort (AssertFailed ''must only set seqno for normal operations''), (st, buf))
      else RecoverExec_loop kMaxSeq (ActionSummary_new flag seqno) sz script (st, buf))"

subsection \<open>The public wrappers (lines 56--154)\<close>

text \<open>
  The C++ operator \<^verbatim>\<open>%\<close> on two \<^verbatim>\<open>int\<close>: the remainder of the division that truncates
  towards zero. It has no meaning for a zero divisor, nor for \<^verbatim>\<open>INT_MIN % -1\<close>.
\<close>

definition c_rem :: "cint \<Rightarrow> cint \<Rightarrow> error + int" where
  "c_rem a b =
     (if b = 0 then Inl (Undefined ''% by zero'')
      else if a = - 0x80000000 \<and> b = - 1 then Inl (Undefined ''INT_MIN % -1'')
      else Inr (sint a smod sint b))"

text \<open>
  Lines 62--65 and 91--94: ``now we are free to remove the last result, if any''.
\<close>

definition remove_last_result :: "AllreduceRobust \<Rightarrow> error + AllreduceRobust" where
  "remove_last_result st =
     (if LastSeqNo (resbuf st) \<noteq> - 1
      then (case c_rem (LastSeqNo (resbuf st)) (result_buffer_round st) of
              Inl e \<Rightarrow> Inl e
            | Inr a \<Rightarrow>
                (case c_rem (rank st) (result_buffer_round st) of
                   Inl e \<Rightarrow> Inl e
                 | Inr b \<Rightarrow>
                     if a \<noteq> b then Inr (st\<lparr>resbuf := DropLast (resbuf st)\<rparr>)
                     else Inr st))
      else Inr st)"

text \<open>
  What the network answers to one attempt of the collective in the retry loop: the return
  code of \<^verbatim>\<open>TryAllreduce\<close> or \<^verbatim>\<open>TryBroadcast\<close> with the contents it leaves in the buffer
  it was given, the links \<^verbatim>\<open>ReConnectLinks\<close> builds after a failure, and the script of
  the \<^verbatim>\<open>RecoverExec\<close> that follows a failure. \<open>pre\<close> is the script of the first
  \<^verbatim>\<open>RecoverExec\<close> of the wrapper.
\<close>

record attempt_env =
  coll :: "ReturnType \<times> bytes"
  coll_relinks :: "LinkRecord list"
  post :: "round_env list"

record collective_env =
  pre :: "round_env list"
  attempts :: "attempt_env list"

definition set_temp :: "bytes \<Rightarrow> AllreduceRobust \<Rightarrow> AllreduceRobust" where
  "set_temp t st = st\<lparr>resbuf := (resbuf st)\<lparr>temp := t\<rparr>\<rparr>"

text \<open>
  Lines 67--78, the retry loop of \<^verbatim>\<open>Allreduce\<close>, on the flag \<open>recovered\<close>, the engine and
  the contents of \<open>sendrecvbuf_\<close>; \<open>temp\<close> is the scratch region of the result buffer and
  \<open>n\<close> is \<open>type_nbytes * count\<close>. The last component records the contents of \<open>temp\<close> at
  each call of \<^verbatim>\<open>TryAllreduce\<close>: the operands that are reduced.
\<close>

fun Allreduce_loop ::
  "cint \<Rightarrow> nat \<Rightarrow> attempt_env list \<Rightarrow> bool \<Rightarrow> AllreduceRobust \<times> bytes \<times> bytes list \<Rightarrow>
   unit outcome \<times> AllreduceRobust \<times> bytes \<times> bytes list" where
  "Allreduce_loop kMaxSeq n atts True (st, buf, ops) =
     (Done (), set_temp (memcpy (temp (resbuf st)) buf n) st, buf, ops)"
| "Allreduce_loop kMaxSeq n [] False s = (Blocked, s)"
| "Allreduce_loop kMaxSeq n (a # rest) False (st, buf, ops) =
     (let operand = memcpy (temp (resbuf st)) buf n in
      case CheckAndRecover (fst (coll a)) (coll_relinks a) (set_temp (snd (coll a)) st) of
        (ok, st1) \<Rightarrow>
          if ok then (Done (), st1, memcpy buf (temp (resbuf st1)) n, ops @ [operand])
          else (case RecoverExec kMaxSeq buf n {} (seq_counter st1) (post a) st1 of
                  (Done recovered, (st2, buf2)) \<Rightarrow>
                    Allreduce_loop kMaxSeq n rest recovered (st2, buf2, ops @ [operand])
                | (Abort e, (st2, buf2)) \<Rightarrow> (Abort e, st2, buf2, ops @ [operand])
                | (Blocked, (st2, buf2)) \<Rightarrow> (Blocked, st2, buf2, ops @ [operand])))"

text \<open>
  Lines 79--80 and 107--108: commit the scratch and count the collective. The increment of
  the \<^verbatim>\<open>int\<close> \<open>seq_counter\<close> has no meaning at \<^verbatim>\<open>INT_MAX\<close>.
\<close>

definition push_result :: "nat \<Rightarrow> nat \<Rightarrow> AllreduceRobust \<Rightarrow> error + AllreduceRobust" where
  "push_result type_nbytes count st =
     (if seq_counter st = INT_MAX then Inl (Undefined ''seq_counter += 1 overflows'')
      else Inr (st\<lparr>resbuf := PushTemp (seq_counter st) type_nbytes count (resbuf st),
                    seq_counter := seq_counter st + 1\<rparr>))"

definition Allreduce ::
  "cint \<Rightarrow> AllreduceRobust \<Rightarrow> bytes \<Rightarrow> nat \<Rightarrow> nat \<Rightarrow> collective_env \<Rightarrow>
   unit outcome \<times> AllreduceRobust \<times> bytes \<times> bytes list" where
  "Allreduce kMaxSeq st sendrecvbuf type_nbytes count env =
     (case RecoverExec kMaxSeq sendrecvbuf (type_nbytes * count) {} (seq_counter st)
             (pre env) st of
        (Done recovered, (st1, buf1)) \<Rightarrow>
          (case remove_last_result st1 of
             Inl e \<Rightarrow> (Abort e, st1, buf1, [])
           | Inr st2 \<Rightarrow>
               (case Allreduce_loop kMaxSeq (type_nbytes * count) (attempts env) recovered
                       (st2\<lparr>resbuf := AllocTemp type_nbytes count (resbuf st2)\<rparr>, buf1, []) of
                  (Done u, st3, buf3, ops) \<Rightarrow>
                    (case push_result type_nbytes count st3 of
                       Inl e \<Rightarrow> (Abort e, st3, buf3, ops)
                     | Inr st4 \<Rightarrow> (Done (), st4, buf3, ops))
                | (Abort e, st3, buf3, ops) \<Rightarrow> (Abort e, st3, buf3, ops)
                | (Blocked, st3, buf3, ops) \<Rightarrow> (Blocked, st3, buf3, ops)))
      | (Abort e, (st1, buf1)) \<Rightarrow> (Abort e, st1, buf1, [])
      | (Blocked, (st1, buf1)) \<Rightarrow> (Blocked, st1, buf1, []))"

text \<open>
  Lines 96--106, the retry loop of \<^verbatim>\<open>Broadcast\<close>: \<^verbatim>\<open>TryBroadcast\<close> works on
  \<open>sendrecvbuf_\<close> itself.
\<close>

fun Broadcast_loop ::
  "cint \<Rightarrow> nat \<Rightarrow> attempt_env list \<Rightarrow> bool \<Rightarrow> AllreduceRobust \<times> bytes \<Rightarrow>
   unit outcome \<times> AllreduceRobust \<times> bytes" where
  "Broadcast_loop kMaxSeq n atts True (st, buf) =
     (Done (), set_temp (memcpy (temp (resbuf st)) buf n) st, buf)"
| "Broadcast_loop kMaxSeq n [] False s = (Blocked, s)"
| "Broadcast_loop kMaxSeq n (a # rest) False (st, buf) =
     (case CheckAndRecover (fst (coll a)) (coll_relinks a) st of
        (ok, st1) \<Rightarrow>
          if ok
          then (Done (), set_temp (memcpy (temp (resbuf st1)) (snd (coll a)) n) st1,
                snd (coll a))
          else (case RecoverExec kMaxSeq (snd (coll a)) n {} (seq_counter st1) (post a) st1 of
                  (Done recovered, (st2, buf2)) \<Rightarrow>
                    Broadcast_loop kMaxSeq n rest recovered (st2, buf2)
                | (Abort e, (st2, buf2)) \<Rightarrow> (Abort e, st2, buf2)
                | (Blocked, (st2, buf2)) \<Rightarrow> (Blocked, st2, buf2)))"

definition Broadcast ::
  "cint \<Rightarrow> AllreduceRobust \<Rightarrow> bytes \<Rightarrow> nat \<Rightarrow> collective_env \<Rightarrow>
   unit outcome \<times> AllreduceRobust \<times> bytes" where
  "Broadcast kMaxSeq st sendrecvbuf total_size env =
     (case RecoverExec kMaxSeq sendrecvbuf total_size {} (seq_counter st) (pre env) st of
        (Done recovered, (st1, buf1)) \<Rightarrow>
          (case remove_last_result st1 of
             Inl e \<Rightarrow> (Abort e, st1, buf1)
           | Inr st2 \<Rightarrow>
               (case Broadcast_loop kMaxSeq total_size (attempts env) recovered
                       (st2\<lparr>resbuf := AllocTemp 1 total_size (resbuf st2)\<rparr>, buf1) of
                  (Done u, st3, buf3) \<Rightarrow>
                    (case push_result 1 total_size st3 of
                       Inl e \<Rightarrow> (Abort e, st3, buf3)
                     | Inr st4 \<Rightarrow> (Done (), st4, buf3))
                | (Abort e, st3, buf3) \<Rightarrow> (Abort e, st3, buf3)
                | (Blocked, st3, buf3) \<Rightarrow> (Blocked, st3, buf3)))
      | (Abort e, (st1, buf1)) \<Rightarrow> (Abort e, st1, buf1)
      | (Blocked, (st1, buf1)) \<Rightarrow> (Blocked, st1, buf1))"

text \<open>
  Modelled from the spec: the memory stream over the checkpoint blob (\<^verbatim>\<open>io.h\<close>, absent).
  The blob holds the version number, then the serialized global model; the version number
  is an \<^verbatim>\<open>int\<close> in the byte order of the machine (the least significant byte first). A
  blob with no version number in it leaves \<open>version_number\<close> as it was.
\<close>

definition read_version :: "bytes \<Rightarrow> cint \<Rightarrow> cint" where
  "read_version blob old = (if length blob < 4 then old else word_rcat (rev (take 4 blob)))"

text \<open>Lines 138 and 150: reset the result buffer.\<close>

definition reset_results :: "AllreduceRobust \<Rightarrow> AllreduceRobust" where
  "reset_results st = st\<lparr>resbuf := Clear (resbuf st), seq_counter := 0\<rparr>"

text \<open>
  \<^verbatim>\<open>LoadCheckPoint\<close>. The global model is a value of any type, \<open>Load\<close> is its
  \<^verbatim>\<open>ISerializable::Load\<close> on the rest of the blob, and \<open>local_model\<close> is \<open>None\<close> for the
  null pointer. The two scripts are those of the two calls of \<^verbatim>\<open>RecoverExec\<close>. The result
  is how the call ends (with the version it returns), the engine and the global model.
\<close>

definition LoadCheckPoint ::
  "cint \<Rightarrow> (bytes \<Rightarrow> 'm) \<Rightarrow> AllreduceRobust \<Rightarrow> 'm \<Rightarrow> 'l option \<Rightarrow> round_env list \<Rightarrow>
   round_env list \<Rightarrow> cint outcome \<times> AllreduceRobust \<times> 'm" where
  "LoadCheckPoint kMaxSeq Load st global_model local_model script ack_script =
     (if \<not> local_model = None
      then (Abort (CheckFailed ''CheckPoint local_model is not yet supported''),
            st, global_model)
      else (case RecoverExec kMaxSeq [] 0 {kLoadCheck} kMaxSeq script st of
              (Done loaded, (st1, _)) \<Rightarrow>
                if loaded then
                  (let st2 = reset_results st1;
                       st3 = st2\<lparr>version_number :=
                               read_version (global_checkpoint st2) (version_number st2)\<rparr>
                   in if version_number st3 = 0
                      then (Done (version_number st3), st3, global_model)
                      else
                        (let m = Load (drop 4 (global_checkpoint st3)) in
                         case RecoverExec kMaxSeq [] 0 {kCheckAck} kMaxSeq ack_script st3 of
                           (Done acked, (st4, _)) \<Rightarrow>
                             if \<not> acked
                             then (Abort (AssertFailed ''check ack must return true''), st4, m)
                             else (Done (version_number st4), st4, m)
                         | (Abort e, (st4, _)) \<Rightarrow> (Abort e, st4, m)
                         | (Blocked, (st4, _)) \<Rightarrow> (Blocked, st4, m)))
                else (Done 0, reset_results st1, global_model)
            | (Abort e, (st1, _)) \<Rightarrow> (Abort e, st1, global_model)
            | (Blocked, (st1, _)) \<Rightarrow> (Blocked, st1, global_model)))"

subsection \<open>Predicates of the statements\<close>

text \<open>
  What the callers of \<^verbatim>\<open>TryDecideRouting\<close> read of its result: when the return code is
  not \<open>kSuccess\<close> they return it and read nothing else.
\<close>

definition routed ::
  "error + ReturnType \<times> nat \<times> (cint \<times> bool list) option \<Rightarrow>
   error + ReturnType \<times> nat \<times> (cint \<times> bool list) option" where
  "routed x =
     (case x of
        Inl e \<Rightarrow> Inl e
      | Inr (succ, s, r) \<Rightarrow> if succ \<noteq> kSuccess then Inr (succ, 0, None) else Inr (succ, s, r))"


text \<open>
  The members of the engine that a recovery leaves alone: everything but the links and
  the checkpoint blob.
\<close>

definition same_core :: "AllreduceRobust \<Rightarrow> AllreduceRobust \<Rightarrow> bool" where
  "same_core st st' =
     (rank st' = rank st \<and> result_buffer_round st' = result_buffer_round st \<and>
      seq_counter st' = seq_counter st \<and> version_number st' = version_number st \<and>
      resbuf st' = resbuf st)"

text \<open>
  Sequence numbers count from 0: the counter and the sequence numbers of the stored
  results are not negative.
\<close>

definition results_wf :: "AllreduceRobust \<Rightarrow> bool" where
  "results_wf st =
     (0 \<le> sint (seq_counter st) \<and>
      list_all (\<lambda>e. 0 \<le> sint (entry_seqno e)) (entries (resbuf st)))"

text \<open>The sequence number of a result is congruent to the rank modulo \<open>R\<close>, as \<^verbatim>\<open>%\<close> computes.\<close>

definition congruent :: "AllreduceRobust \<Rightarrow> ResultEntry \<Rightarrow> bool" where
  "congruent st e =
     (sint (entry_seqno e) smod sint (result_buffer_round st) =
      sint (rank st) smod sint (result_buffer_round st))"

text \<open>The rank, the round, the counter and the entries of the result buffer are the same.\<close>

definition same_entries :: "AllreduceRobust \<Rightarrow> AllreduceRobust \<Rightarrow> bool" where
  "same_entries st st' =
     (rank st' = rank st \<and> result_buffer_round st' = result_buffer_round st \<and>
      seq_counter st' = seq_counter st \<and> entries (resbuf st') = entries (resbuf st))"

text \<open>
  The past results the retention rule keeps: all of them, but for the last one when its
  sequence number is not congruent to the rank.
\<close>

definition kept :: "AllreduceRobust \<Rightarrow> ResultEntry list" where
  "kept st =
     (if entries (resbuf st) \<noteq> [] \<and> \<not> congruent st (last (entries (resbuf st)))
      then butlast (entries (resbuf st))
      else entries (resbuf st))"

text \<open>
  The retention rule between the engine \<open>st\<close> before a collective and the engine \<open>st'\<close>
  after it: the past results of \<open>st'\<close> are those the rule keeps, the new last entry has the
  sequence number of the collective, the counter is one more, and when the past results of
  \<open>st\<close> but the last were all congruent to the rank, the past results of \<open>st'\<close> are exactly
  the results of \<open>st\<close> that are congruent to the rank.
\<close>

definition retention :: "AllreduceRobust \<Rightarrow> AllreduceRobust \<Rightarrow> bool" where
  "retention st st' =
     (butlast (entries (resbuf st')) = kept st \<and> entries (resbuf st') \<noteq> [] \<and>
      entry_seqno (last (entries (resbuf st'))) = seq_counter st \<and>
      seq_counter st' = seq_counter st + 1 \<and> rank st' = rank st \<and>
      result_buffer_round st' = result_buffer_round st \<and> results_wf st' \<and>
      (list_all (congruent st) (butlast (entries (resbuf st))) \<longrightarrow>
         butlast (entries (resbuf st')) = filter (congruent st) (entries (resbuf st))))"

text \<open>
  A round of \<^verbatim>\<open>RecoverExec\<close> in which a worker at sequence number \<open>seqno\<close> is not asked to
  take a result: the reduced summary does not say that the sequence numbers differ with
  \<open>seqno\<close> the least of them.
\<close>

definition not_requester :: "cint \<Rightarrow> round_env \<Rightarrow> bool" where
  "not_requester seqno e =
     (\<not> (diff_seq (snd (summary e)) \<and> min_seqno (snd (summary e)) = seqno))"

text \<open>The links \<open>s\<close> are as many as the links \<open>ls\<close>, and every bad socket of \<open>ls\<close> is bad in \<open>s\<close>.\<close>

definition still_bad :: "LinkRecord list \<Rightarrow> LinkRecord list \<Rightarrow> bool" where
  "still_bad ls s =
     (length s = length ls \<and>
      list_all (\<lambda>i. sock_bad (ls ! i) \<longrightarrow> sock_bad (s ! i)) [0..<length ls])"

text \<open>
  The bounds of claim C6 on the counters of a transfer of \<open>sz\<close> bytes: no link has read
  more than \<open>sz\<close>; a link that is asked for data has been written no more than \<open>sz\<close>
  (role \<open>kHaveData\<close>), or no more than was read from the link \<open>pid\<close> (the other roles).
\<close>

definition reads_bounded :: "nat \<Rightarrow> xfer \<Rightarrow> bool" where
  "reads_bounded sz s = list_all (\<lambda>l. size_read l \<le> sz) (fst s)"

definition writes_bounded :: "nat \<Rightarrow> bool list \<Rightarrow> xfer \<Rightarrow> bool" where
  "writes_bounded sz req_in s =
     list_all (\<lambda>i. req_in ! i \<longrightarrow> size_write (fst s ! i) \<le> sz) [0..<length (fst s)]"

definition writes_follow :: "nat \<Rightarrow> bool list \<Rightarrow> xfer \<Rightarrow> bool" where
  "writes_follow pid req_in s =
     (pid < length (fst s) \<and>
      list_all (\<lambda>i. req_in ! i \<longrightarrow> size_write (fst s ! i) \<le> size_read (fst s ! pid))
        [0..<length (fst s)])"

text \<open>The bounds on the counters that hold in each role.\<close>

definition counters_ok :: "RecoverType \<Rightarrow> nat \<Rightarrow> nat \<Rightarrow> bool list \<Rightarrow> xfer \<Rightarrow> bool" where
  "counters_ok role sz pid req_in s =
     (case role of
        kHaveData \<Rightarrow> reads_bounded sz s \<and> writes_bounded sz req_in s
      | kRequestData \<Rightarrow> reads_bounded sz s \<and> writes_follow pid req_in s
      | kPassData \<Rightarrow> writes_follow pid req_in s)"

subsection \<open>Concrete inputs of the examples\<close>

text \<open>A link with a ring buffer of 16 bytes and nothing read or written.\<close>

definition idle_link :: LinkRecord where
  "idle_link = \<lparr>sock_bad = False, size_read = 0, size_write = 0, buffer_size = 16,
     buffer_head = replicate 16 0, wire_out = []\<rparr>"

text \<open>A worker of rank 0 with one link, no checkpoint and an empty result buffer.\<close>

definition fresh_engine :: AllreduceRobust where
  "fresh_engine = \<lparr>rank = 0, result_buffer_round = 1, seq_counter = 0, version_number = 0,
     global_checkpoint = [], resbuf = \<lparr>entries = [], temp = []\<rparr>, links = [idle_link]\<rparr>"

text \<open>A reduced action summary with no flag bit.\<close>

definition plain_summary :: "bool \<Rightarrow> cint \<Rightarrow> ActionSummary" where
  "plain_summary d n =
     \<lparr>load_check = False, check_point = False, check_ack = False, diff_seq = d, min_seqno = n\<rparr>"

text \<open>A select round in which nothing is ready.\<close>

definition quiet :: select_env where
  "quiet = \<lparr>ready_read = (\<lambda>i. False), ready_write = (\<lambda>i. False), ready_except = (\<lambda>i. False),
     recv_res = (\<lambda>i. RecvAgain), send_res = (\<lambda>i. SendAgain)\<rparr>"

text \<open>
  The answers to a recovery in which the neighbour on link 0 holds \<open>n\<close> bytes one hop away
  and asks for nothing, with the select rounds \<open>rounds\<close>.
\<close>

definition neighbour_has :: "nat \<Rightarrow> select_env list \<Rightarrow> recover_env" where
  "neighbour_has n rounds =
     \<lparr>dist_net = (kSuccess, [(1, n)]), req_net = (kSuccess, [0]), transfer = rounds\<rparr>"

text \<open>A round of \<^verbatim>\<open>RecoverExec\<close> whose reduction succeeds with the summary \<open>act\<close>.\<close>

definition round_of :: "ActionSummary \<Rightarrow> recover_env \<Rightarrow> round_env" where
  "round_of act renv = \<lparr>summary = (kSuccess, act), recover = renv, relinks = [idle_link]\<rparr>"

text \<open>
  A worker of rank 1 with \<open>result_buffer_round = 2\<close> that has done one collective and holds
  its result, and a collective whose first attempt succeeds while all ranks are at
  sequence number 1.
\<close>

definition second_worker :: AllreduceRobust where
  "second_worker = fresh_engine\<lparr>rank := 1, result_buffer_round := 2, seq_counter := 1,
     resbuf := \<lparr>entries =
       [\<lparr>entry_seqno = 0, entry_type_nbytes = 1, entry_count = 2, entry_data = [5, 6]\<rparr>],
       temp = []\<rparr>\<rparr>"

definition one_attempt :: collective_env where
  "one_attempt =
     \<lparr>pre = [round_of (plain_summary False 1) (neighbour_has 2 [])],
      attempts = [\<lparr>coll = (kSuccess, [7, 7]), coll_relinks = [idle_link], post = []\<rparr>]\<rparr>"

text \<open>
  The same worker after that collective: it holds the result of sequence number 1, and a
  broadcast of two bytes whose first attempt succeeds while all ranks are at sequence
  number 2.
\<close>

definition third_worker :: AllreduceRobust where
  "third_worker = fresh_engine\<lparr>rank := 1, result_buffer_round := 2, seq_counter := 2,
     resbuf := \<lparr>entries =
       [\<lparr>entry_seqno = 1, entry_type_nbytes = 1, entry_count = 2, entry_data = [7, 7]\<rparr>],
       temp = [7, 7]\<rparr>\<rparr>"

definition one_broadcast :: collective_env where
  "one_broadcast =
     \<lparr>pre = [round_of (plain_summary False 2) (neighbour_has 2 [])],
      attempts = [\<lparr>coll = (kSuccess, [4, 2]), coll_relinks = [idle_link], post = []\<rparr>]\<rparr>"

text \<open>
  Two scripts of a collective at sequence number 0 whose first attempt fails and whose
  second attempt succeeds. In \<open>retry_once\<close> the \<^verbatim>\<open>RecoverExec\<close> between them finds all
  ranks at sequence number 0. In \<open>broken_recovery\<close> it first finds this worker lagging:
  the worker receives one byte of the result, then the transfer fails with an exception on
  the socket; the next round finds all ranks at sequence number 0.
\<close>

definition retry_once :: collective_env where
  "retry_once =
     \<lparr>pre = [round_of (plain_summary False 0) (neighbour_has 2 [])],
      attempts =
        [\<lparr>coll = (kSockError, [0, 0]), coll_relinks = [idle_link],
          post = [round_of (plain_summary False 0) (neighbour_has 2 [])]\<rparr>,
         \<lparr>coll = (kSuccess, [7, 7]), coll_relinks = [idle_link], post = []\<rparr>]\<rparr>"

definition broken_recovery :: collective_env where
  "broken_recovery =
     \<lparr>pre = [round_of (plain_summary False 0) (neighbour_has 2 [])],
      attempts =
        [\<lparr>coll = (kSockError, [0, 0]), coll_relinks = [idle_link],
          post = [round_of (plain_summary True 0)
                    (neighbour_has 2
                       [quiet\<lparr>ready_read := (\<lambda>i. True), recv_res := (\<lambda>i. RecvData [9])\<rparr>,
                        quiet\<lparr>ready_except := (\<lambda>i. True)\<rparr>]),
                  round_of (plain_summary False 0) (neighbour_has 2 [])]\<rparr>,
         \<lparr>coll = (kSuccess, [7, 7]), coll_relinks = [idle_link], post = []\<rparr>]\<rparr>"

text \<open>
  A script whose only attempt fails, after which this worker is found lagging and
  receives the two bytes \<open>8, 9\<close> of the result from its neighbour.
\<close>

definition recovered_result :: collective_env where
  "recovered_result =
     \<lparr>pre = [round_of (plain_summary False 0) (neighbour_has 2 [])],
      attempts =
        [\<lparr>coll = (kSockError, [0, 0]), coll_relinks = [idle_link],
          post = [round_of (plain_summary True 0)
                    (neighbour_has 2
                       [quiet\<lparr>ready_read := (\<lambda>i. True),
                              recv_res := (\<lambda>i. RecvData [8, 9])\<rparr>])]\<rparr>]\<rparr>"

text \<open>
  The constants of a platform on which \<^verbatim>\<open>EAGAIN\<close> and \<^verbatim>\<open>EWOULDBLOCK\<close> are the same number,
  a socket call that returns \<open>n\<close>, and the answers of a handshake on one link in which both
  bytes are sent at once and the drain answers \<open>first\<close>.
\<close>

definition posix :: reset_consts where
  "posix = \<lparr>kOOBReset = 95, kResetMark = 97, kResetAck = 97, EAGAIN = 11, EWOULDBLOCK = 11,
     init_size = 16\<rparr>"

definition returns :: "int \<Rightarrow> sock_ans" where
  "returns n = \<lparr>ans_len = n, ans_errno = 0, ans_breaks = False\<rparr>"

definition handshake :: "sock_ans \<times> sock_ans \<times> sock_ans \<Rightarrow> reset_env" where
  "handshake first =
     \<lparr>mark_rounds = [\<lambda>i. (returns 1, returns 1)],
      drain_rounds = [\<lambda>i. first],
      sync_ans = (\<lambda>i. (returns 1, 97, returns 0, [returns 1])),
      ack_ans = (\<lambda>i. (returns 1, 97))\<rparr>"

section \<open>Verification\<close>

subsection \<open>Facts about 32-bit signed integers\<close>

lemma sint_INT_MAX: "sint INT_MAX = 2147483647"
  by (simp add: INT_MAX_def)

lemma sint_le_INT_MAX: "sint (x::cint) \<le> 2147483647"
  using sint_lt [of x] by simp

lemma sint_eq_INT_MAX:
  assumes "sint (x::cint) = 2147483647" shows "x = INT_MAX"
proof -
  from assms have "sint x = sint INT_MAX" by (simp add: sint_INT_MAX)
  then show ?thesis by (rule signed_word_eqI)
qed

lemma sint_succ:
  assumes "x \<noteq> INT_MAX" shows "sint (x + 1 :: cint) = sint x + 1"
proof -
  have "sint x \<noteq> 2147483647" using assms sint_eq_INT_MAX by blast
  then have lt: "sint x + 1 < 2 ^ 31" using sint_le_INT_MAX [of x] by simp
  have ge: "- (2 ^ 31) \<le> sint x + 1" using sint_ge [of x] by simp
  have "sint (x + 1) = signed_take_bit 31 (sint x + sint (1::cint))"
    by (simp add: sint_word_ariths)
  also have "\<dots> = signed_take_bit 31 (sint x + 1)" by simp
  also have "\<dots> = sint x + 1" using lt ge by (simp add: signed_take_bit_int_eq_self)
  finally show ?thesis .
qed

subsection \<open>Facts about loops\<close>

lemma for_links_append:
  "for_links body (xs @ ys) s =
     (case for_links body xs s of
        (Some r, s') \<Rightarrow> (Some r, s')
      | (None, s') \<Rightarrow> for_links body ys s')"
  by (induction xs arbitrary: s) (auto split: prod.splits option.splits)

text \<open>A property that every run of the body keeps holds after the loop.\<close>

lemma for_links_inv:
  assumes "\<And>i s. P s \<Longrightarrow> P (snd (body i s))" and "P s"
  shows "P (snd (for_links body idx s))"
  using assms(2)
proof (induction idx arbitrary: s)
  case Nil
  then show ?case by simp
next
  case (Cons i rest)
  obtain r s' where step: "body i s = (r, s')" by (cases "body i s")
  with assms(1) [OF Cons.prems, of i] have "P s'" by simp
  with Cons.IH [of s'] step show ?case by (cases r) simp_all
qed

subsection \<open>\<^verbatim>\<open>ShortestDist\<close>\<close>

lemma scan_0: "scan d out 0 = (INT_MAX, 0)"
  by (simp add: scan_def)

lemma scan_Suc: "scan d out (Suc n) = ShortestDist_step d out n (scan d out n)"
  by (simp add: scan_def)

lemma ShortestDist_scan:
  "ShortestDist node_value dist_in out_index =
     (if fst node_value then (1, snd node_value) else scan dist_in out_index (length dist_in))"
  by (simp add: ShortestDist_def scan_def)

lemma step_cases:
  "ShortestDist_step d out i acc =
     (if candidate d out i \<and> sint (fst (d ! i)) + 1 < sint (fst acc)
      then (fst (d ! i) + 1, snd (d ! i)) else acc)"
  by (simp add: ShortestDist_step_def candidate_def sint_succ)

text \<open>The running result is at most one hop more than any candidate seen so far.\<close>

lemma scan_upper:
  "i < n \<Longrightarrow> candidate d out i \<Longrightarrow> sint (fst (scan d out n)) \<le> sint (fst (d ! i)) + 1"
proof (induction n)
  case 0
  then show ?case by simp
next
  case (Suc n)
  show ?case
  proof (cases "i = n")
    case True
    with Suc.prems show ?thesis
      by (simp only: scan_Suc step_cases) (simp add: sint_succ candidate_def)
  next
    case False
    with Suc.prems have "i < n" by simp
    with Suc have IH: "sint (fst (scan d out n)) \<le> sint (fst (d ! i)) + 1" by simp
    show ?thesis
      using IH by (simp only: scan_Suc step_cases) (auto simp: sint_succ candidate_def)
  qed
qed

text \<open>
  The running result is either still the initial \<open>(INT_MAX, 0)\<close> or comes from a candidate
  that is strictly closer than every candidate before it.
\<close>

lemma scan_attained:
  "scan d out n = (INT_MAX, 0) \<or>
   (\<exists>j<n. candidate d out j \<and> scan d out n = (fst (d ! j) + 1, snd (d ! j)) \<and>
      sint (fst (d ! j)) + 1 < 2147483647 \<and>
      (\<forall>k<j. candidate d out k \<longrightarrow> sint (fst (d ! j)) < sint (fst (d ! k))))"
proof (induction n)
  case 0
  then show ?case by (simp add: scan_0)
next
  case (Suc n)
  let ?acc = "scan d out n"
  show ?case
  proof (cases "candidate d out n \<and> sint (fst (d ! n)) + 1 < sint (fst ?acc)")
    case True
    then have new: "scan d out (Suc n) = (fst (d ! n) + 1, snd (d ! n))"
      by (simp only: scan_Suc step_cases) simp
    have lt: "sint (fst (d ! n)) + 1 < 2147483647"
      using True sint_le_INT_MAX [of "fst ?acc"] by linarith
    have "\<forall>k<n. candidate d out k \<longrightarrow> sint (fst (d ! n)) < sint (fst (d ! k))"
    proof (intro allI impI)
      fix k assume "k < n" "candidate d out k"
      then have "sint (fst ?acc) \<le> sint (fst (d ! k)) + 1" by (rule scan_upper)
      with True show "sint (fst (d ! n)) < sint (fst (d ! k))" by linarith
    qed
    with True new lt show ?thesis by blast
  next
    case False
    then have same: "scan d out (Suc n) = ?acc"
      by (simp only: scan_Suc step_cases) simp
    from Suc.IH show ?thesis
      unfolding same using less_Suc_eq by blast
  qed
qed

text \<open>
  Claim C4, as amended. A node that holds the payload answers \<open>(1, own_size)\<close>. Otherwise,
  with no candidate neighbour the answer is \<open>(INT_MAX, 0)\<close>; and when \<open>j\<close> is the candidate
  with the least hop count, the lowest index among equals, the answer is
  \<open>(hops j + 1, size j)\<close> provided \<open>hops j + 1\<close> is below \<^verbatim>\<open>INT_MAX\<close>. A nearest neighbour
  exactly \<open>INT_MAX - 1\<close> hops away is not taken: the answer is then \<open>(INT_MAX, 0)\<close>, the
  distance of the claim with the size 0 instead of the neighbour's.
\<close>

theorem ShortestDist_result:
  "(fst node_value \<longrightarrow> ShortestDist node_value dist_in out_index = (1, snd node_value)) \<and>
   (\<not> fst node_value \<and> (\<forall>i<length dist_in. \<not> candidate dist_in out_index i) \<longrightarrow>
      ShortestDist node_value dist_in out_index = (INT_MAX, 0)) \<and>
   (\<not> fst node_value \<and> j < length dist_in \<and> candidate dist_in out_index j \<and>
    (\<forall>k<length dist_in. candidate dist_in out_index k \<longrightarrow>
        sint (fst (dist_in ! j)) \<le> sint (fst (dist_in ! k))) \<and>
    (\<forall>k<j. candidate dist_in out_index k \<longrightarrow>
        sint (fst (dist_in ! j)) < sint (fst (dist_in ! k))) \<longrightarrow>
      ShortestDist node_value dist_in out_index =
        (if sint (fst (dist_in ! j)) + 1 < 2147483647
         then (fst (dist_in ! j) + 1, snd (dist_in ! j))
         else (INT_MAX, 0)))"
proof (intro conjI impI)
  assume "fst node_value"
  then show "ShortestDist node_value dist_in out_index = (1, snd node_value)"
    by (simp add: ShortestDist_scan)
next
  assume a: "\<not> fst node_value \<and> (\<forall>i<length dist_in. \<not> candidate dist_in out_index i)"
  from scan_attained [of dist_in out_index "length dist_in"] a
  have "scan dist_in out_index (length dist_in) = (INT_MAX, 0)" by blast
  with a show "ShortestDist node_value dist_in out_index = (INT_MAX, 0)"
    by (simp add: ShortestDist_scan)
next
  let ?n = "length dist_in"
  let ?h = "\<lambda>i. sint (fst (dist_in ! i))"
  assume a: "\<not> fst node_value \<and> j < ?n \<and> candidate dist_in out_index j \<and>
    (\<forall>k<?n. candidate dist_in out_index k \<longrightarrow> ?h j \<le> ?h k) \<and>
    (\<forall>k<j. candidate dist_in out_index k \<longrightarrow> ?h j < ?h k)"
  then have j: "j < ?n" "candidate dist_in out_index j"
    and least: "\<And>k. k < ?n \<Longrightarrow> candidate dist_in out_index k \<Longrightarrow> ?h j \<le> ?h k"
    and first: "\<And>k. k < j \<Longrightarrow> candidate dist_in out_index k \<Longrightarrow> ?h j < ?h k"
    by blast+
  have eq: "ShortestDist node_value dist_in out_index = scan dist_in out_index ?n"
    using a by (simp add: ShortestDist_scan)
  have up: "sint (fst (scan dist_in out_index ?n)) \<le> ?h j + 1"
    using j by (rule scan_upper)
  consider (none) "scan dist_in out_index ?n = (INT_MAX, 0)"
    | (some) j' where "j' < ?n" "candidate dist_in out_index j'"
        "scan dist_in out_index ?n = (fst (dist_in ! j') + 1, snd (dist_in ! j'))"
        "?h j' + 1 < 2147483647"
        "\<And>k. k < j' \<Longrightarrow> candidate dist_in out_index k \<Longrightarrow> ?h j' < ?h k"
    using scan_attained [of dist_in out_index ?n] by blast
  then have "scan dist_in out_index ?n =
        (if ?h j + 1 < 2147483647
         then (fst (dist_in ! j) + 1, snd (dist_in ! j))
         else (INT_MAX, 0))"
  proof cases
    case none
    with up have "\<not> ?h j + 1 < 2147483647" by (simp add: sint_INT_MAX)
    with none show ?thesis by simp
  next
    case some
    have ne: "fst (dist_in ! j') \<noteq> INT_MAX" using some(2) by (simp add: candidate_def)
    have "sint (fst (scan dist_in out_index ?n)) = ?h j' + 1"
      using some(3) ne by (simp add: sint_succ)
    with up have le: "?h j' \<le> ?h j" by simp
    moreover have "?h j \<le> ?h j'" using some(1,2) by (rule least)
    ultimately have heq: "?h j' = ?h j" by simp
    have "\<not> j' < j" using first [of j'] some(2) heq by auto
    moreover have "\<not> j < j'" using some(5) [of j] j(2) heq by auto
    ultimately have "j' = j" by simp
    with some show ?thesis by simp
  qed
  with eq show "ShortestDist node_value dist_in out_index =
        (if ?h j + 1 < 2147483647
         then (fst (dist_in ! j) + 1, snd (dist_in ! j))
         else (INT_MAX, 0))" by simp
qed

text \<open>
  Two neighbours at 2 hops, sizes 7 and 9, and an outgoing link that is neither of them:
  the first one wins and the answer is \<open>(3, 7)\<close>.
\<close>

theorem ShortestDist_result_witness:
  "ShortestDist (False, 0) [(2, 7), (2, 9)] 5 = (3, 7)"
proof -
  let ?d = "[(2, 7), (2, 9)] :: (cint \<times> nat) list"
  have c0: "candidate ?d 5 0" by (simp add: candidate_def INT_MAX_def)
  have least: "\<forall>k<length ?d. candidate ?d 5 k \<longrightarrow> sint (fst (?d ! 0)) \<le> sint (fst (?d ! k))"
    by (simp add: less_Suc_eq)
  have "ShortestDist (False, 0) ?d 5 =
        (if sint (fst (?d ! 0)) + 1 < 2147483647 then (fst (?d ! 0) + 1, snd (?d ! 0))
         else (INT_MAX, 0))"
    using ShortestDist_result [of "(False, 0)" ?d 5 0] c0 least by simp
  then show ?thesis by simp
qed

text \<open>
  Claim C4 as stated fails: the only neighbour is \<open>INT_MAX - 1\<close> hops away with size 5 and
  is not the outgoing link, yet the answer is \<open>(INT_MAX, 0)\<close> and not
  \<open>(min_hops + 1, that neighbour's size) = (INT_MAX, 5)\<close>.
\<close>

theorem ShortestDist_counterexample:
  "ShortestDist (False, 0) [(0x7FFFFFFE, 5)] 1 = (0x7FFFFFFF, 0) \<and>
   ShortestDist (False, 0) [(0x7FFFFFFE, 5)] 1
     \<noteq> (0x7FFFFFFE + 1, snd ([(0x7FFFFFFE :: cint, 5 :: nat)] ! 0))"
  by (simp add: ShortestDist_def ShortestDist_step_def INT_MAX_def)

subsection \<open>\<^verbatim>\<open>DataRequest\<close>\<close>

lemma DataRequest_loop_iff:
  "DataRequest_loop req_in out_index idx =
     (if \<exists>i\<in>set idx. i \<noteq> out_index \<and> req_in ! i \<noteq> 0 then 1 else 0)"
  by (induction idx) auto

text \<open>
  The comparison \<^verbatim>\<open>static_cast<int>(out_index) == best_link\<close> is equality of numbers for
  every link index below \<open>2^31\<close>.
\<close>

lemma static_cast_int_eq:
  assumes "out_index < 2 ^ 31"
  shows "(static_cast_int out_index = best_link) = (int out_index = sint best_link)"
proof -
  have "take_bit 32 out_index = out_index"
    using assms by (simp add: take_bit_nat_eq_self)
  then have "sint (word_of_nat out_index :: cint) = signed_take_bit 31 (int out_index)"
    by (simp add: sint_uint unsigned_of_nat)
  also have "\<dots> = int out_index"
    using assms by (simp add: signed_take_bit_int_eq_self)
  finally have s: "sint (static_cast_int out_index) = int out_index"
    by (simp add: static_cast_int_def)
  show ?thesis
    using s word_eq_iff_signed [of "static_cast_int out_index" best_link] by auto
qed

text \<open>
  Claim C5: \<^verbatim>\<open>DataRequest\<close> returns 1 exactly when \<open>out_index\<close> is \<open>best_link\<close> (as the
  source compares them, after the cast to \<^verbatim>\<open>int\<close>) and the node itself requests data or
  some inbound edge other than \<open>out_index\<close> carries a non-zero request; it returns 0 in
  every other case.
\<close>

theorem DataRequest_result:
  "DataRequest (request, best_link) req_in out_index =
     (if static_cast_int out_index = best_link \<and>
         (request \<or> (\<exists>i. i < length req_in \<and> i \<noteq> out_index \<and> req_in ! i \<noteq> 0))
      then 1 else 0)"
  by (auto simp: DataRequest_def DataRequest_loop_iff)

subsection \<open>\<^verbatim>\<open>TryDecideRouting\<close>: the assertions on the requests\<close>

lemma request_step_length:
  "length (snd (request_step req_in req_out best_link i p)) = length p"
  by (simp add: request_step_def Let_def)

lemma request_step_None:
  "(fst (request_step req_in req_out best_link i p) = None) =
     (i < length req_out \<and>
      (req_out ! i \<noteq> 0 \<longrightarrow> req_in ! i = 0 \<and> static_cast_int i = best_link))"
  by (auto simp: request_step_def Let_def)

text \<open>
  The loop over the first \<open>n\<close> links passes exactly when every one of them with an
  outgoing request has no incoming request and is \<open>best_link\<close>.
\<close>

lemma request_loop_None:
  "(fst (for_links (request_step req_in req_out best_link) [0..<n] p) = None) =
     (\<forall>i<n. i < length req_out \<and>
        (req_out ! i \<noteq> 0 \<longrightarrow> req_in ! i = 0 \<and> static_cast_int i = best_link))"
proof (induction n)
  case 0
  then show ?case by simp
next
  case (Suc n)
  obtain r s where rs: "for_links (request_step req_in req_out best_link) [0..<n] p = (r, s)"
    by (cases "for_links (request_step req_in req_out best_link) [0..<n] p")
  show ?case
  proof (cases r)
    case None
    with rs Suc have before: "\<forall>i<n. i < length req_out \<and>
        (req_out ! i \<noteq> 0 \<longrightarrow> req_in ! i = 0 \<and> static_cast_int i = best_link)"
      by simp
    obtain r' s' where step: "request_step req_in req_out best_link n s = (r', s')"
      by (cases "request_step req_in req_out best_link n s")
    have "(r' = None) = (n < length req_out \<and>
        (req_out ! n \<noteq> 0 \<longrightarrow> req_in ! n = 0 \<and> static_cast_int n = best_link))"
      using request_step_None [of req_in req_out best_link n s] step by simp
    moreover have "fst (for_links (request_step req_in req_out best_link) [0..<Suc n] p) = r'"
      using rs None step by (cases r') (simp_all add: for_links_append)
    ultimately show ?thesis
      using before by (auto simp: less_Suc_eq)
  next
    case (Some e)
    with rs Suc have "\<not> (\<forall>i<n. i < length req_out \<and>
        (req_out ! i \<noteq> 0 \<longrightarrow> req_in ! i = 0 \<and> static_cast_int i = best_link))"
      by simp
    moreover have "fst (for_links (request_step req_in req_out best_link) [0..<Suc n] p) \<noteq> None"
      using rs Some by (simp add: for_links_append)
    ultimately show ?thesis
      using less_Suc_eq by blast
  qed
qed

lemma check_requests_None:
  "(fst (check_requests req_in req_out best_link) = None) =
     (\<forall>i<length req_in. i < length req_out \<and>
        (req_out ! i \<noteq> 0 \<longrightarrow> req_in ! i = 0 \<and> static_cast_int i = best_link))"
  by (simp add: check_requests_def request_loop_None)

text \<open>
  Claim C3, as amended. When \<^verbatim>\<open>TryDecideRouting\<close> returns \<open>kSuccess\<close> with the inbound link
  \<open>recv_link\<close>, every link \<open>i\<close> whose outgoing request \<open>req_out[i]\<close> is not 0 has
  \<open>req_in[i] = 0\<close> and is \<open>recv_link\<close>: both assertions hold on every such link and
  \<open>recv_link\<close> is no exception to the first. Here \<open>req_in\<close> is the network's answer to
  the second message pass and \<open>req_out\<close> what that pass sends.
\<close>

theorem TryDecideRouting_requests:
  assumes "TryDecideRouting role p_size dnet (kSuccess, req_in) =
             Inr (kSuccess, p_size', Some (recv_link, p_req_in))"
    and "i < length req_in"
    and "DataRequest (role = kRequestData, recv_link) req_in i \<noteq> 0"
  shows "req_in ! i = 0 \<and> static_cast_int i = recv_link"
proof -
  let ?req_out = "map (DataRequest (role = kRequestData, recv_link) req_in) [0..<length req_in]"
  from assms(1) have "fst (check_requests req_in ?req_out recv_link) = None"
    by (auto simp: TryDecideRouting_def MsgPassing_def
             split: if_splits prod.splits option.splits sum.splits)
  then have "\<forall>i<length req_in. i < length ?req_out \<and>
        (?req_out ! i \<noteq> 0 \<longrightarrow> req_in ! i = 0 \<and> static_cast_int i = recv_link)"
    by (simp only: check_requests_None)
  with assms(2,3) show ?thesis by simp
qed

text \<open>
  A requesting node with one neighbour, which holds 4 bytes one hop away and asks for
  nothing: the routing succeeds, the node asks on link 0, its inbound link.
\<close>

theorem TryDecideRouting_requests_witness:
  "TryDecideRouting kRequestData 0 (kSuccess, [(1, 4)]) (kSuccess, [0]) =
     Inr (kSuccess, 4, Some (0, [False])) \<and>
   DataRequest (kRequestData = kRequestData, 0) [0] 0 \<noteq> 0 \<and>
   ([0] :: cchar list) ! 0 = 0 \<and> static_cast_int 0 = (0 :: cint)"
proof -
  have run: "TryDecideRouting kRequestData 0 (kSuccess, [(1, 4)]) (kSuccess, [0]) =
     Inr (kSuccess, 4, Some (0, [False]))"
    by (simp add: TryDecideRouting_def MsgPassing_def best_link_step_def check_requests_def
        request_step_def DataRequest_def static_cast_int_def INT_MAX_def)
  have out: "DataRequest (kRequestData = kRequestData, 0) [0] 0 \<noteq> 0"
    by (simp add: DataRequest_def static_cast_int_def)
  from TryDecideRouting_requests [OF run _ out] run out show ?thesis by simp
qed

text \<open>
  Claim C3 as stated fails. The same requesting node, whose neighbour on link 0 now sends
  a request too: link 0 is \<open>recv_link\<close> and appears in both \<open>req_in\<close> and \<open>req_out\<close>,
  which the claim permits, and the first assertion stops the call.
\<close>

theorem TryDecideRouting_requests_counterexample:
  "DataRequest (True, 0) [1] 0 = 1 \<and>
   check_requests [1] [1] 0 = (Some (AssertFailed ''cannot get and receive request''), [True]) \<and>
   TryDecideRouting kRequestData 0 (kSuccess, [(1, 4)]) (kSuccess, [1]) =
     Inl (AssertFailed ''cannot get and receive request'')"
  by (simp add: TryDecideRouting_def MsgPassing_def best_link_step_def check_requests_def
      request_step_def DataRequest_def static_cast_int_def INT_MAX_def)

subsection \<open>\<^verbatim>\<open>RecoverExec\<close> on a summary without flags\<close>

lemmas routing_defs = TryDecideRouting_def MsgPassing_def best_link_step_def
  check_requests_def request_step_def DataRequest_def ShortestDist_def ShortestDist_step_def
  static_cast_int_def INT_MAX_def

lemmas transfer_defs = TryRecoverData_def req_data_step_def ResetSize_def Close_def
  finished_def watch_read_def pending_write_def watch_write_def CheckRead_def CheckWrite_def
  TryRecoverData_iter_def request_handler_def request_write_def have_write_def
  pass_handler_def pass_write_def min_write_def ReadToArray_def WriteFromArray_def
  ReadToRingBuffer_def size_sub_def store_def memcpy_def

lemmas recover_defs = TryGetResult_def TryGetResult_role_def TryLoadCheckPoint_def
  CheckAndRecover_def ReConnectLinks_def Query_def resize_def RecoverExec_def
  RecoverExec_round_def RecoverExec_get_def RecoverExec_load_def ActionSummary_new_def

lemmas example_defs = idle_link_def fresh_engine_def plain_summary_def quiet_def
  neighbour_has_def round_of_def

text \<open>
  Claim C1, as amended. A call with \<open>flag = 0\<close> whose round reduces to a summary without
  flags and with \<open>min_seqno\<close> other than \<^verbatim>\<open>kMaxSeq\<close>: when \<open>diff_seq\<close> is false the call
  returns \<open>false\<close> and leaves the engine and \<open>buf\<close> as they were; when \<open>diff_seq\<close> is true
  it runs \<^verbatim>\<open>TryGetResult(buf, size, act.min_seqno, requester)\<close> with
  \<open>requester = (seqno = act.min_seqno)\<close>, the requester returns \<open>true\<close> when that succeeds,
  and in every other case that returns the call goes on with the next round (after
  \<^verbatim>\<open>CheckAndRecover\<close> has rebuilt the links, if \<^verbatim>\<open>TryGetResult\<close> failed).
\<close>

theorem RecoverExec_plain:
  assumes "fst (summary env) = kSuccess"
    and "\<not> load_check (snd (summary env))"
    and "\<not> check_point (snd (summary env))"
    and "\<not> check_ack (snd (summary env))"
    and "min_seqno (snd (summary env)) \<noteq> kMaxSeq"
  shows "(\<not> diff_seq (snd (summary env)) \<longrightarrow>
           RecoverExec kMaxSeq buf sz {} seqno (env # rest) st = (Done False, (st, buf))) \<and>
         (diff_seq (snd (summary env)) \<longrightarrow>
           RecoverExec kMaxSeq buf sz {} seqno (env # rest) st =
             (case TryGetResult st buf sz (min_seqno (snd (summary env)))
                     (seqno = min_seqno (snd (summary env))) (recover env) of
                (Done r, st', buf') \<Rightarrow>
                  if r = kSuccess \<and> seqno = min_seqno (snd (summary env))
                  then (Done True, (st', buf'))
                  else RecoverExec kMaxSeq buf' sz {} seqno rest
                         (snd (CheckAndRecover r (relinks env) st'))
              | (Abort e, st', buf') \<Rightarrow> (Abort e, (st', buf'))
              | (Blocked, st', buf') \<Rightarrow> (Blocked, (st', buf'))))"
  using assms
  by (auto simp: RecoverExec_def RecoverExec_round_def RecoverExec_get_def CheckAndRecover_def
        ActionSummary_new_def Let_def split: prod.splits outcome.splits)

text \<open>
  All ranks are at sequence number 5: the call returns \<open>false\<close> and changes nothing. And a
  rank at sequence number 5 while the others are further: it is the requester, receives
  the two bytes of the result from its neighbour and returns \<open>true\<close>.
\<close>

theorem RecoverExec_plain_witness:
  "RecoverExec 67108864 [1, 2] 2 {} 5
     [round_of (plain_summary False 5) (neighbour_has 2 [])] fresh_engine =
     (Done False, (fresh_engine, [1, 2])) \<and>
   RecoverExec 67108864 [1, 2] 2 {} 5
     [round_of (plain_summary True 5)
        (neighbour_has 2 [quiet\<lparr>ready_read := (\<lambda>i. True), recv_res := (\<lambda>i. RecvData [8, 9])\<rparr>])]
     fresh_engine =
     (Done True, (fresh_engine\<lparr>links := [idle_link\<lparr>size_read := 2\<rparr>]\<rparr>, [8, 9]))"
proof -
  let ?same = "round_of (plain_summary False 5) (neighbour_has 2 [])"
  let ?lag = "round_of (plain_summary True 5)
        (neighbour_has 2 [quiet\<lparr>ready_read := (\<lambda>i. True), recv_res := (\<lambda>i. RecvData [8, 9])\<rparr>])"
  have get: "TryGetResult fresh_engine [1, 2] 2 5 True (recover ?lag) =
      (Done kSuccess, fresh_engine\<lparr>links := [idle_link\<lparr>size_read := 2\<rparr>]\<rparr>, [8, 9])"
    by (simp add: recover_defs routing_defs transfer_defs example_defs)
  have "RecoverExec 67108864 [1, 2] 2 {} 5 [?same] fresh_engine =
          (Done False, (fresh_engine, [1, 2]))"
    using RecoverExec_plain [of ?same 67108864 "[1, 2]" 2 5 "[]" fresh_engine]
    by (simp add: example_defs)
  moreover have "RecoverExec 67108864 [1, 2] 2 {} 5 [?lag] fresh_engine =
          (Done True, (fresh_engine\<lparr>links := [idle_link\<lparr>size_read := 2\<rparr>]\<rparr>, [8, 9]))"
    using RecoverExec_plain [of ?lag 67108864 "[1, 2]" 2 5 "[]" fresh_engine] get
    by (simp add: example_defs)
  ultimately show ?thesis by simp
qed

text \<open>
  Claim C1 as stated fails: a call with \<open>flag = 0\<close> and the sequence number \<^verbatim>\<open>kMaxSeq\<close>
  on every rank reduces to a summary without flags and without \<open>diff_seq\<close>, and the call
  does not return \<open>false\<close>: the assertion of line 693 stops it.
\<close>

theorem RecoverExec_plain_counterexample:
  "RecoverExec 67108864 [1, 2] 2 {} 67108864
     [round_of (plain_summary False 67108864) (neighbour_has 2 [])] fresh_engine =
     (Abort (AssertFailed ''min seq bug''), (fresh_engine, [1, 2]))"
  by (simp add: RecoverExec_def RecoverExec_round_def CheckAndRecover_def
      ActionSummary_new_def example_defs)

subsection \<open>\<^verbatim>\<open>TryGetResult\<close> of a node that is not the requester\<close>












subsection \<open>\<^verbatim>\<open>RecoverExec\<close> leaves the results alone\<close>

lemma same_core_refl: "same_core st st"
  by (simp add: same_core_def)

lemma same_core_trans: "same_core a b \<Longrightarrow> same_core b c \<Longrightarrow> same_core a c"
  by (simp add: same_core_def)

lemma CheckAndRecover_core: "same_core st (snd (CheckAndRecover r rebuilt st))"
  by (simp add: CheckAndRecover_def same_core_def)

lemma TryLoadCheckPoint_core: "same_core st (snd (TryLoadCheckPoint st requester env))"
  by (simp add: TryLoadCheckPoint_def same_core_def Let_def
      split: sum.splits prod.splits option.splits)

lemma TryGetResult_core:
  "same_core st (fst (snd (TryGetResult st buf sz seqno requester env)))"
  by (simp add: TryGetResult_def same_core_def split: sum.splits prod.splits option.splits)

lemma RecoverExec_load_core:
  "same_core (fst s) (fst (snd (RecoverExec_load req env s)))"
proof -
  obtain r st where t: "TryLoadCheckPoint (fst s) (load_check req) (recover env) = (r, st)"
    by (cases "TryLoadCheckPoint (fst s) (load_check req) (recover env)")
  with TryLoadCheckPoint_core [of "fst s" "load_check req" "recover env"]
  have c: "same_core (fst s) st" by simp
  show ?thesis
  proof (cases r)
    case (Done x)
    obtain ok st' where k: "CheckAndRecover x (relinks env) st = (ok, st')"
      by (cases "CheckAndRecover x (relinks env) st")
    with CheckAndRecover_core [of st x "relinks env"] have "same_core st st'" by simp
    with c have "same_core (fst s) st'" by (rule same_core_trans)
    with t Done k show ?thesis by (simp add: RecoverExec_load_def)
  next
    case (Abort e)
    with t c show ?thesis by (simp add: RecoverExec_load_def)
  next
    case Blocked
    with t c show ?thesis by (simp add: RecoverExec_load_def)
  qed
qed

lemma RecoverExec_get_core:
  "same_core (fst s) (fst (snd (RecoverExec_get req act sz env s)))"
proof -
  let ?rq = "min_seqno req = min_seqno act"
  obtain r st b where t: "TryGetResult (fst s) (snd s) sz (min_seqno act) ?rq (recover env) = (r, st, b)"
    by (metis prod.exhaust)
  with TryGetResult_core [of "fst s" "snd s" sz "min_seqno act" ?rq "recover env"]
  have c: "same_core (fst s) st" by simp
  show ?thesis
  proof (cases r)
    case (Done x)
    obtain ok st' where k: "CheckAndRecover x (relinks env) st = (ok, st')"
      by (cases "CheckAndRecover x (relinks env) st")
    with CheckAndRecover_core [of st x "relinks env"] have "same_core st st'" by simp
    with c have "same_core (fst s) st'" by (rule same_core_trans)
    with t Done k show ?thesis by (simp add: RecoverExec_get_def)
  next
    case (Abort e)
    with t c show ?thesis by (simp add: RecoverExec_get_def)
  next
    case Blocked
    with t c show ?thesis by (simp add: RecoverExec_get_def)
  qed
qed

lemma RecoverExec_round_core:
  "same_core (fst s) (fst (snd (RecoverExec_round kMaxSeq req sz env s)))"
proof -
  obtain ok st where k: "CheckAndRecover (fst (summary env)) (relinks env) (fst s) = (ok, st)"
    by (cases "CheckAndRecover (fst (summary env)) (relinks env) (fst s)")
  with CheckAndRecover_core [of "fst s" "fst (summary env)" "relinks env"]
  have c: "same_core (fst s) st" by simp
  have "same_core st (fst (snd (RecoverExec_load req env (st, snd s))))"
    using RecoverExec_load_core [of "(st, snd s)" req env] by simp
  with c have l: "same_core (fst s) (fst (snd (RecoverExec_load req env (st, snd s))))"
    by (rule same_core_trans)
  have "same_core st (fst (snd (RecoverExec_get req (snd (summary env)) sz env (st, snd s))))"
    using RecoverExec_get_core [of "(st, snd s)" req "snd (summary env)" sz env] by simp
  with c have g: "same_core (fst s)
      (fst (snd (RecoverExec_get req (snd (summary env)) sz env (st, snd s))))"
    by (rule same_core_trans)
  from k c l g show ?thesis
    by (simp add: RecoverExec_round_def Let_def)
qed

lemma RecoverExec_loop_core:
  "same_core (fst s) (fst (snd (RecoverExec_loop kMaxSeq req sz script s)))"
proof (induction script arbitrary: s)
  case Nil
  then show ?case by (simp add: same_core_refl)
next
  case (Cons env rest)
  obtain r s' where st: "RecoverExec_round kMaxSeq req sz env s = (r, s')"
    by (cases "RecoverExec_round kMaxSeq req sz env s")
  with RecoverExec_round_core [of s kMaxSeq req sz env] have c: "same_core (fst s) (fst s')"
    by simp
  show ?case
  proof (cases r)
    case None
    with st c Cons.IH [of s'] show ?thesis by (auto intro: same_core_trans)
  next
    case (Some a)
    with st c show ?thesis by simp
  qed
qed

lemma RecoverExec_core:
  "same_core st (fst (snd (RecoverExec kMaxSeq buf sz flag seqno script st)))"
  using RecoverExec_loop_core [of "(st, buf)"]
  by (simp add: RecoverExec_def same_core_refl)

subsection \<open>\<^verbatim>\<open>LoadCheckPoint\<close>\<close>

text \<open>
  Claim C7. A call with a \<open>local_model\<close> that is not null is rejected and changes nothing.
  A call with a null \<open>local_model\<close> that returns \<open>v\<close> leaves the result buffer without
  entries and \<open>seq_counter\<close> at 0; when the stored version number is then 0 (no
  checkpoint) it returns 0, and whenever it returns 0 the global model is the one it was
  given.
\<close>

theorem LoadCheckPoint_result:
  "(local_model \<noteq> None \<longrightarrow>
      LoadCheckPoint kMaxSeq Load st m local_model script ack =
        (Abort (CheckFailed ''CheckPoint local_model is not yet supported''), st, m)) \<and>
   (LoadCheckPoint kMaxSeq Load st m None script ack = (Done v, st', m') \<longrightarrow>
      entries (resbuf st') = [] \<and> seq_counter st' = 0 \<and>
      (version_number st' = 0 \<longrightarrow> v = 0) \<and> (v = 0 \<longrightarrow> m' = m))"
proof (intro conjI impI)
  assume "local_model \<noteq> None"
  then show "LoadCheckPoint kMaxSeq Load st m local_model script ack =
        (Abort (CheckFailed ''CheckPoint local_model is not yet supported''), st, m)"
    by (simp add: LoadCheckPoint_def)
next
  assume run: "LoadCheckPoint kMaxSeq Load st m None script ack = (Done v, st', m')"
  obtain r st1 b1 where first: "RecoverExec kMaxSeq [] 0 {kLoadCheck} kMaxSeq script st = (r, (st1, b1))"
    by (metis prod.exhaust)
  let ?st3 = "(reset_results st1)\<lparr>version_number :=
      read_version (global_checkpoint (reset_results st1)) (version_number (reset_results st1))\<rparr>"
  obtain r2 st4 b4 where second: "RecoverExec kMaxSeq [] 0 {kCheckAck} kMaxSeq ack ?st3 = (r2, (st4, b4))"
    by (metis prod.exhaust)
  from RecoverExec_core [of ?st3 kMaxSeq "[]" 0 "{kCheckAck}" kMaxSeq ack] second
  have core: "same_core ?st3 st4" by simp
  have "entries (resbuf st') = [] \<and> seq_counter st' = 0 \<and>
      (version_number st' = 0 \<longrightarrow> v = 0) \<and> (v = 0 \<longrightarrow> m' = m)"
    using run first second core
    by (auto simp: LoadCheckPoint_def Let_def reset_results_def Clear_def same_core_def
        split: outcome.splits if_splits)
  then show "entries (resbuf st') = []" "seq_counter st' = 0" "version_number st' = 0 \<Longrightarrow> v = 0"
    "v = 0 \<Longrightarrow> m' = m" by simp_all
qed


text \<open>
  A restarted worker with a stale result and \<open>seq_counter = 7\<close> loads the checkpoint while
  its peers are further; its neighbour answers with an empty blob (no checkpoint yet). The
  call returns 0, the model is as it was, the result buffer is empty and the counter is 0.
\<close>

theorem LoadCheckPoint_result_witness:
  "LoadCheckPoint 67108864 (\<lambda>b. b)
     (fresh_engine\<lparr>seq_counter := 7, resbuf := \<lparr>entries =
        [\<lparr>entry_seqno = 6, entry_type_nbytes = 1, entry_count = 2, entry_data = [5, 6]\<rparr>],
        temp = []\<rparr>\<rparr>)
     [1, 2] (None :: unit option)
     [round_of \<lparr>load_check = True, check_point = False, check_ack = False, diff_seq = True,
        min_seqno = 7\<rparr> (neighbour_has 0 [])] [] =
     (Done 0, fresh_engine, [1, 2]) \<and>
   entries (resbuf fresh_engine) = [] \<and> seq_counter fresh_engine = 0"
proof -
  let ?st = "fresh_engine\<lparr>seq_counter := 7, resbuf := \<lparr>entries =
        [\<lparr>entry_seqno = 6, entry_type_nbytes = 1, entry_count = 2, entry_data = [5, 6]\<rparr>],
        temp = []\<rparr>\<rparr>"
  let ?script = "[round_of \<lparr>load_check = True, check_point = False, check_ack = False,
        diff_seq = True, min_seqno = 7\<rparr> (neighbour_has 0 [])]"
  have run: "LoadCheckPoint 67108864 (\<lambda>b. b) ?st [1, 2] (None :: unit option) ?script [] =
     (Done 0, fresh_engine, [1, 2])"
    by (simp add: LoadCheckPoint_def recover_defs routing_defs example_defs reset_results_def
        Clear_def read_version_def Let_def)
  from LoadCheckPoint_result [of "None :: unit option" 67108864 "\<lambda>b. b" ?st "[1, 2]" ?script
      "[]" 0 fresh_engine "[1, 2]"] run
  show ?thesis by blast
qed

subsection \<open>The retention rule of the wrappers\<close>

lemma same_entries_refl: "same_entries st st"
  by (simp add: same_entries_def)

lemma same_entries_trans: "same_entries a b \<Longrightarrow> same_entries b c \<Longrightarrow> same_entries a c"
  by (simp add: same_entries_def)

lemma same_core_entries: "same_core a b \<Longrightarrow> same_entries a b"
  by (simp add: same_core_def same_entries_def)

lemma set_temp_entries: "same_entries st (set_temp t st)"
  by (simp add: same_entries_def set_temp_def)

lemma RecoverExec_entries:
  "RecoverExec kMaxSeq buf sz flag seqno script st = (r, (st', b)) \<Longrightarrow> same_entries st st'"
  using RecoverExec_core [of st kMaxSeq buf sz flag seqno script]
  by (simp add: same_core_entries)

lemma CheckAndRecover_entries:
  "CheckAndRecover r rebuilt st = (ok, st') \<Longrightarrow> same_entries st st'"
  using CheckAndRecover_core [of st r rebuilt] by (simp add: same_core_entries)

lemma Allreduce_loop_entries:
  "same_entries st (fst (snd (Allreduce_loop kMaxSeq n atts recovered (st, buf, ops))))"
proof (induction atts arbitrary: recovered st buf ops)
  case Nil
  then show ?case
    by (cases recovered) (simp_all add: set_temp_entries same_entries_refl)
next
  case (Cons a rest)
  show ?case
  proof (cases recovered)
    case True
    then show ?thesis by (simp add: set_temp_entries)
  next
    case False
    obtain ok st1 where k: "CheckAndRecover (fst (coll a)) (coll_relinks a)
        (set_temp (snd (coll a)) st) = (ok, st1)"
      by (metis prod.exhaust)
    from CheckAndRecover_entries [OF k] set_temp_entries [of st "snd (coll a)"]
    have c1: "same_entries st st1" by (blast intro: same_entries_trans)
    show ?thesis
    proof (cases ok)
      case True
      with False k c1 show ?thesis by simp
    next
      case nok: False
      obtain r st2 b2 where e: "RecoverExec kMaxSeq buf n {} (seq_counter st1) (post a) st1 =
          (r, (st2, b2))" by (metis prod.exhaust)
      from RecoverExec_entries [OF e] c1 have c2: "same_entries st st2"
        by (blast intro: same_entries_trans)
      show ?thesis
      proof (cases r)
        case (Done rec)
        from Cons.IH [of st2 rec b2 "ops @ [memcpy (temp (resbuf st)) buf n]"] c2
        have "same_entries st (fst (snd (Allreduce_loop kMaxSeq n rest rec
            (st2, b2, ops @ [memcpy (temp (resbuf st)) buf n]))))"
          by (blast intro: same_entries_trans)
        with False k nok e Done show ?thesis by (simp add: Let_def)
      next
        case (Abort x)
        with False k nok e c2 show ?thesis by (simp add: Let_def)
      next
        case Blocked
        with False k nok e c2 show ?thesis by (simp add: Let_def)
      qed
    qed
  qed
qed

lemma Broadcast_loop_entries:
  "same_entries st (fst (snd (Broadcast_loop kMaxSeq n atts recovered (st, buf))))"
proof (induction atts arbitrary: recovered st buf)
  case Nil
  then show ?case
    by (cases recovered) (simp_all add: set_temp_entries same_entries_refl)
next
  case (Cons a rest)
  show ?case
  proof (cases recovered)
    case True
    then show ?thesis by (simp add: set_temp_entries)
  next
    case False
    obtain ok st1 where k: "CheckAndRecover (fst (coll a)) (coll_relinks a) st = (ok, st1)"
      by (metis prod.exhaust)
    from CheckAndRecover_entries [OF k] have c1: "same_entries st st1" .
    show ?thesis
    proof (cases ok)
      case True
      with False k c1 set_temp_entries [of st1] show ?thesis
        by (auto intro: same_entries_trans)
    next
      case nok: False
      obtain r st2 b2 where e: "RecoverExec kMaxSeq (snd (coll a)) n {} (seq_counter st1)
          (post a) st1 = (r, (st2, b2))" by (metis prod.exhaust)
      from RecoverExec_entries [OF e] c1 have c2: "same_entries st st2"
        by (blast intro: same_entries_trans)
      show ?thesis
      proof (cases r)
        case (Done rec)
        from Cons.IH [of st2 rec b2] c2
        have "same_entries st (fst (snd (Broadcast_loop kMaxSeq n rest rec (st2, b2))))"
          by (blast intro: same_entries_trans)
        with False k nok e Done show ?thesis by simp
      next
        case (Abort x)
        with False k nok e c2 show ?thesis by simp
      next
        case Blocked
        with False k nok e c2 show ?thesis by simp
      qed
    qed
  qed
qed

lemma results_wf_iff:
  "results_wf st =
     (0 \<le> sint (seq_counter st) \<and> (\<forall>e\<in>set (entries (resbuf st)). 0 \<le> sint (entry_seqno e)))"
  by (simp add: results_wf_def list_all_iff)

lemma remove_last_result_kept:
  assumes "remove_last_result st = Inr st2" and "results_wf st"
  shows "rank st2 = rank st \<and> result_buffer_round st2 = result_buffer_round st \<and>
         seq_counter st2 = seq_counter st \<and> entries (resbuf st2) = kept st"
proof (cases "entries (resbuf st) = []")
  case True
  with assms(1) show ?thesis
    by (auto simp: remove_last_result_def LastSeqNo_def kept_def)
next
  case False
  then have "last (entries (resbuf st)) \<in> set (entries (resbuf st))" by simp
  with assms(2) have "0 \<le> sint (entry_seqno (last (entries (resbuf st))))"
    by (simp add: results_wf_iff)
  then have "entry_seqno (last (entries (resbuf st))) \<noteq> - 1" by auto
  with False have l: "LastSeqNo (resbuf st) \<noteq> - 1" "LastSeqNo (resbuf st) = entry_seqno (last (entries (resbuf st)))"
    by (simp_all add: LastSeqNo_def)
  with assms(1) False show ?thesis
    by (auto simp: remove_last_result_def kept_def congruent_def c_rem_def DropLast_def
        split: sum.splits if_splits)
qed

lemma kept_filter:
  assumes "\<forall>e\<in>set (butlast (entries (resbuf st))). congruent st e"
  shows "kept st = filter (congruent st) (entries (resbuf st))"
proof (cases "entries (resbuf st) = []")
  case True
  then show ?thesis by (simp add: kept_def)
next
  case False
  then obtain es e where split: "entries (resbuf st) = es @ [e]"
    by (metis append_butlast_last_id)
  with assms have "filter (congruent st) es = es" by simp
  with split show ?thesis by (simp add: kept_def)
qed

lemma kept_subset: "set (kept st) \<subseteq> set (entries (resbuf st))"
  by (auto simp: kept_def dest: in_set_butlastD)

lemma epilogue_retention:
  assumes wf: "results_wf st"
    and c1: "same_entries st st1"
    and rm: "remove_last_result st1 = Inr st2"
    and c3: "same_entries (st2\<lparr>resbuf := AllocTemp a b (resbuf st2)\<rparr>) st3"
    and push: "push_result t c st3 = Inr st4"
  shows "retention st st4"
proof -
  from wf c1 have wf1: "results_wf st1" by (simp add: results_wf_iff same_entries_def)
  from remove_last_result_kept [OF rm wf1] c1
  have k: "rank st2 = rank st" "result_buffer_round st2 = result_buffer_round st"
    "seq_counter st2 = seq_counter st" "entries (resbuf st2) = kept st1"
    by (simp_all add: same_entries_def)
  have "kept st1 = kept st" using c1 by (simp add: kept_def congruent_def same_entries_def)
  with k c3 have s3: "rank st3 = rank st" "result_buffer_round st3 = result_buffer_round st"
    "seq_counter st3 = seq_counter st" "entries (resbuf st3) = kept st"
    by (simp_all add: same_entries_def AllocTemp_def)
  from push have ne: "seq_counter st3 \<noteq> INT_MAX"
    and st4: "st4 = st3\<lparr>resbuf := PushTemp (seq_counter st3) t c (resbuf st3),
                    seq_counter := seq_counter st3 + 1\<rparr>"
    by (auto simp: push_result_def split: if_splits)
  from ne s3 wf have "0 \<le> sint (seq_counter st4)"
    unfolding st4 by (simp add: sint_succ results_wf_iff)
  moreover have "\<forall>e\<in>set (entries (resbuf st4)). 0 \<le> sint (entry_seqno e)"
    using s3 wf kept_subset [of st] unfolding st4
    by (auto simp: PushTemp_def results_wf_iff)
  ultimately have wf4: "results_wf st4" by (simp add: results_wf_iff)
  have filt: "list_all (congruent st) (butlast (entries (resbuf st))) \<longrightarrow>
         kept st = filter (congruent st) (entries (resbuf st))"
    using kept_filter [of st] by (simp add: list_all_iff)
  from s3 wf4 filt show ?thesis
    unfolding st4 by (simp add: retention_def PushTemp_def)
qed

text \<open>
  Claim C2, for each of the two wrappers. After a call of \<^verbatim>\<open>Allreduce\<close> that returns, and
  after a call of \<^verbatim>\<open>Broadcast\<close> that returns, on an engine whose sequence numbers are not
  negative: the previous last entry of a non-empty result buffer has been dropped exactly
  when \<open>LastSeqNo() % R\<close> differed from \<open>rank % R\<close>, every other entry is kept, and the
  result of this collective is the new last entry; so a worker whose past results were
  congruent to its rank keeps exactly the past results that are. (A call on a non-empty
  buffer with \<open>R = 0\<close> does not return: \<^verbatim>\<open>%\<close> has no meaning.)
\<close>

theorem wrappers_retention:
  assumes "results_wf st"
  shows "(Allreduce kMaxSeq st buf type_nbytes count env = (Done (), st', buf', ops) \<longrightarrow>
            retention st st') \<and>
         (Broadcast kMaxSeq st bbuf total_size benv = (Done (), st'', bbuf') \<longrightarrow>
            retention st st'')"
proof (intro conjI impI)
  assume run: "Allreduce kMaxSeq st buf type_nbytes count env = (Done (), st', buf', ops)"
  obtain r st1 b1 where first: "RecoverExec kMaxSeq buf (type_nbytes * count) {} (seq_counter st)
      (pre env) st = (r, (st1, b1))" by (metis prod.exhaust)
  from RecoverExec_entries [OF first] have c1: "same_entries st st1" .
  from run first obtain recovered st2 where r: "r = Done recovered"
    and rm: "remove_last_result st1 = Inr st2"
    by (auto simp: Allreduce_def split: outcome.splits sum.splits)
  let ?st2a = "st2\<lparr>resbuf := AllocTemp type_nbytes count (resbuf st2)\<rparr>"
  obtain r3 st3 b3 o3 where loop: "Allreduce_loop kMaxSeq (type_nbytes * count) (attempts env)
      recovered (?st2a, b1, []) = (r3, st3, b3, o3)" by (metis prod.exhaust)
  from Allreduce_loop_entries [of ?st2a kMaxSeq "type_nbytes * count" "attempts env" recovered b1 "[]"]
    loop have c3: "same_entries ?st2a st3" by simp
  from run first r rm loop have push: "push_result type_nbytes count st3 = Inr st'"
    by (auto simp: Allreduce_def split: outcome.splits sum.splits)
  from assms c1 rm c3 push show "retention st st'" by (rule epilogue_retention)
next
  assume run: "Broadcast kMaxSeq st bbuf total_size benv = (Done (), st'', bbuf')"
  obtain r st1 b1 where first: "RecoverExec kMaxSeq bbuf total_size {} (seq_counter st)
      (pre benv) st = (r, (st1, b1))" by (metis prod.exhaust)
  from RecoverExec_entries [OF first] have c1: "same_entries st st1" .
  from run first obtain recovered st2 where r: "r = Done recovered"
    and rm: "remove_last_result st1 = Inr st2"
    by (auto simp: Broadcast_def split: outcome.splits sum.splits)
  let ?st2a = "st2\<lparr>resbuf := AllocTemp 1 total_size (resbuf st2)\<rparr>"
  obtain r3 st3 b3 where loop: "Broadcast_loop kMaxSeq total_size (attempts benv)
      recovered (?st2a, b1) = (r3, st3, b3)" by (metis prod.exhaust)
  from Broadcast_loop_entries [of ?st2a kMaxSeq total_size "attempts benv" recovered b1]
    loop have c3: "same_entries ?st2a st3" by simp
  from run first r rm loop have push: "push_result 1 total_size st3 = Inr st''"
    by (auto simp: Broadcast_def split: outcome.splits sum.splits)
  from assms c1 rm c3 push show "retention st st''" by (rule epilogue_retention)
qed

lemmas wrapper_defs = Allreduce_def Broadcast_def remove_last_result_def c_rem_def
  LastSeqNo_def DropLast_def AllocTemp_def PushTemp_def push_result_def set_temp_def
  smod_int_alt_def

text \<open>
  The worker of rank 1 with \<open>R = 2\<close> holds the result of sequence number 0, and \<open>0 % 2\<close>
  is not \<open>1 % 2\<close>: after the next \<^verbatim>\<open>Allreduce\<close> that result is dropped and the result of
  sequence number 1 is the only entry. The worker then holds the result of sequence number
  1, and \<open>1 % 2\<close> is \<open>1 % 2\<close>: after the next \<^verbatim>\<open>Broadcast\<close> that result is retained and
  the result of sequence number 2 follows it.
\<close>

theorem wrappers_retention_witness:
  "results_wf second_worker \<and>
   Allreduce 67108864 second_worker [3, 4] 1 2 one_attempt =
     (Done (), third_worker, [7, 7], [[3, 4]]) \<and>
   retention second_worker third_worker \<and>
   entries (resbuf third_worker) =
     [\<lparr>entry_seqno = 1, entry_type_nbytes = 1, entry_count = 2, entry_data = [7, 7]\<rparr>] \<and>
   results_wf third_worker \<and>
   Broadcast 67108864 third_worker [0, 0] 2 one_broadcast =
     (Done (),
      third_worker\<lparr>seq_counter := 3, resbuf := \<lparr>entries =
         [\<lparr>entry_seqno = 1, entry_type_nbytes = 1, entry_count = 2, entry_data = [7, 7]\<rparr>,
          \<lparr>entry_seqno = 2, entry_type_nbytes = 1, entry_count = 2, entry_data = [4, 2]\<rparr>],
         temp = [4, 2]\<rparr>\<rparr>,
      [4, 2]) \<and>
   retention third_worker
     (third_worker\<lparr>seq_counter := 3, resbuf := \<lparr>entries =
         [\<lparr>entry_seqno = 1, entry_type_nbytes = 1, entry_count = 2, entry_data = [7, 7]\<rparr>,
          \<lparr>entry_seqno = 2, entry_type_nbytes = 1, entry_count = 2, entry_data = [4, 2]\<rparr>],
         temp = [4, 2]\<rparr>\<rparr>)"
proof -
  let ?st'' = "third_worker\<lparr>seq_counter := 3, resbuf := \<lparr>entries =
         [\<lparr>entry_seqno = 1, entry_type_nbytes = 1, entry_count = 2, entry_data = [7, 7]\<rparr>,
          \<lparr>entry_seqno = 2, entry_type_nbytes = 1, entry_count = 2, entry_data = [4, 2]\<rparr>],
         temp = [4, 2]\<rparr>\<rparr>"
  have wf: "results_wf second_worker"
    by (simp add: results_wf_def second_worker_def)
  have run: "Allreduce 67108864 second_worker [3, 4] 1 2 one_attempt =
     (Done (), third_worker, [7, 7], [[3, 4]])"
    by (simp add: wrapper_defs recover_defs example_defs second_worker_def third_worker_def
        one_attempt_def memcpy_def store_def INT_MAX_def Let_def)
  have ents: "entries (resbuf third_worker) =
     [\<lparr>entry_seqno = 1, entry_type_nbytes = 1, entry_count = 2, entry_data = [7, 7]\<rparr>]"
    by (simp add: third_worker_def)
  have wf3: "results_wf third_worker"
    by (simp add: results_wf_def third_worker_def)
  have brun: "Broadcast 67108864 third_worker [0, 0] 2 one_broadcast = (Done (), ?st'', [4, 2])"
    by (simp add: wrapper_defs recover_defs example_defs third_worker_def one_broadcast_def
        memcpy_def store_def INT_MAX_def Let_def)
  from wrappers_retention [OF wf, where kMaxSeq = 67108864 and buf = "[3, 4]"
      and type_nbytes = 1 and count = 2 and env = one_attempt and st' = third_worker
      and buf' = "[7, 7]" and ops = "[[3, 4]]"] run
  have kept_a: "retention second_worker third_worker" by blast
  from wrappers_retention [OF wf3, where kMaxSeq = 67108864 and bbuf = "[0, 0]"
      and total_size = 2 and benv = one_broadcast and st'' = ?st'' and bbuf' = "[4, 2]"] brun
  have kept_b: "retention third_worker ?st''" by blast
  from wf run kept_a ents wf3 brun kept_b show ?thesis by blast
qed
subsection \<open>The operands of the retry loop of \<^verbatim>\<open>Allreduce\<close>\<close>

lemma TryGetResult_keeps_buf:
  "snd (snd (TryGetResult st buf sz seqno False env)) = buf"
  by (simp add: TryGetResult_def split: prod.splits sum.splits option.splits)

lemma RecoverExec_load_buf:
  assumes "\<not> load_check req"
  shows "snd (snd (RecoverExec_load req env s)) = snd s \<and>
         fst (RecoverExec_load req env s) \<noteq> Some (Done True)"
  using assms
  by (simp add: RecoverExec_load_def split: prod.splits outcome.splits)

lemma RecoverExec_get_buf:
  assumes "min_seqno req \<noteq> min_seqno act"
  shows "snd (snd (RecoverExec_get req act sz env s)) = snd s \<and>
         fst (RecoverExec_get req act sz env s) \<noteq> Some (Done True)"
proof -
  obtain r st b where t: "TryGetResult (fst s) (snd s) sz (min_seqno act) False (recover env) = (r, st, b)"
    by (metis prod.exhaust)
  with TryGetResult_keeps_buf [of "fst s" "snd s" sz "min_seqno act" "recover env"]
  have "b = snd s" by simp
  with t assms show ?thesis
    by (simp add: RecoverExec_get_def split: prod.splits outcome.splits)
qed

lemma RecoverExec_round_buf:
  assumes "not_requester seqno env"
  shows "snd (snd (RecoverExec_round kMaxSeq (ActionSummary_new {} seqno) sz env s)) = snd s \<and>
         fst (RecoverExec_round kMaxSeq (ActionSummary_new {} seqno) sz env s) \<noteq> Some (Done True)"
proof -
  let ?req = "ActionSummary_new {} seqno"
  let ?act = "snd (summary env)"
  obtain ok st where k: "CheckAndRecover (fst (summary env)) (relinks env) (fst s) = (ok, st)"
    by (metis prod.exhaust)
  have l: "snd (snd (RecoverExec_load ?req env (st, snd s))) = snd s \<and>
         fst (RecoverExec_load ?req env (st, snd s)) \<noteq> Some (Done True)"
    using RecoverExec_load_buf [of ?req env "(st, snd s)"] by (simp add: ActionSummary_new_def)
  have g: "diff_seq ?act \<Longrightarrow>
         snd (snd (RecoverExec_get ?req ?act sz env (st, snd s))) = snd s \<and>
         fst (RecoverExec_get ?req ?act sz env (st, snd s)) \<noteq> Some (Done True)"
    using RecoverExec_get_buf [of ?req ?act sz env "(st, snd s)"] assms
    by (auto simp: ActionSummary_new_def not_requester_def)
  have flags: "\<not> check_point ?req" "\<not> check_ack ?req" "\<not> load_check ?req"
    by (simp_all add: ActionSummary_new_def)
  from k l g flags show ?thesis
    by (simp add: RecoverExec_round_def Let_def)
qed

lemma RecoverExec_loop_buf:
  assumes "list_all (not_requester seqno) script"
  shows "snd (snd (RecoverExec_loop kMaxSeq (ActionSummary_new {} seqno) sz script s)) = snd s \<and>
         fst (RecoverExec_loop kMaxSeq (ActionSummary_new {} seqno) sz script s) \<noteq> Done True"
  using assms
proof (induction script arbitrary: s)
  case Nil
  then show ?case by simp
next
  case (Cons env rest)
  obtain r s' where st: "RecoverExec_round kMaxSeq (ActionSummary_new {} seqno) sz env s = (r, s')"
    by (metis prod.exhaust)
  from Cons.prems have "not_requester seqno env" by simp
  from RecoverExec_round_buf [OF this, of kMaxSeq sz s] st
  have b: "snd s' = snd s" "r \<noteq> Some (Done True)" by simp_all
  show ?case
  proof (cases r)
    case None
    with st b Cons show ?thesis by simp
  next
    case (Some a)
    with st b show ?thesis by simp
  qed
qed

lemma RecoverExec_buf:
  assumes "list_all (not_requester seqno) script"
    and "RecoverExec kMaxSeq buf sz {} seqno script st = (r, (st', b))"
  shows "b = buf \<and> r \<noteq> Done True"
  using RecoverExec_loop_buf [OF assms(1), of kMaxSeq sz "(st, buf)"] assms(2)
  by (simp add: RecoverExec_def)

lemma take_memcpy: "n \<le> length buf \<Longrightarrow> take n (memcpy t buf n) = take n buf"
  by (simp add: memcpy_def store_def)

lemma Allreduce_loop_operands:
  assumes "list_all (\<lambda>a. list_all (not_requester (seq_counter st)) (post a)) atts"
    and "n \<le> length buf"
    and "Allreduce_loop kMaxSeq n atts False (st, buf, ops) = (r, st', buf', ops')"
  shows "(\<forall>x\<in>set ops'. x \<in> set ops \<or> take n x = take n buf) \<and>
         (buf' = buf \<or>
            (\<exists>a\<in>set atts. fst (coll a) = kSuccess \<and> buf' = memcpy buf (snd (coll a)) n))"
  using assms
proof (induction atts arbitrary: st ops)
  case Nil
  then show ?case by auto
next
  case (Cons a rest)
  let ?op = "memcpy (temp (resbuf st)) buf n"
  have op: "take n ?op = take n buf" using Cons.prems(2) by (rule take_memcpy)
  obtain ok st1 where k: "CheckAndRecover (fst (coll a)) (coll_relinks a)
      (set_temp (snd (coll a)) st) = (ok, st1)" by (metis prod.exhaust)
  from CheckAndRecover_entries [OF k] set_temp_entries [of st "snd (coll a)"]
  have s1: "seq_counter st1 = seq_counter st" by (simp add: same_entries_def)
  show ?case
  proof (cases ok)
    case True
    with k have succ: "fst (coll a) = kSuccess" "st1 = set_temp (snd (coll a)) st"
      by (auto simp: CheckAndRecover_def split: if_splits)
    with Cons.prems(3) k True op show ?thesis
      by (auto simp: set_temp_def)
  next
    case nok: False
    obtain r2 st2 b2 where e: "RecoverExec kMaxSeq buf n {} (seq_counter st1) (post a) st1 =
        (r2, (st2, b2))" by (metis prod.exhaust)
    from Cons.prems(1) s1 have "list_all (not_requester (seq_counter st1)) (post a)" by simp
    from RecoverExec_buf [OF this e] have b2: "b2 = buf" "r2 \<noteq> Done True" by simp_all
    from RecoverExec_entries [OF e] s1 have s2: "seq_counter st2 = seq_counter st"
      by (simp add: same_entries_def)
    show ?thesis
    proof (cases r2)
      case (Done rec)
      with b2 have rec: "rec = False" by simp
      from Cons.prems(3) k nok e Done rec b2
      have run: "Allreduce_loop kMaxSeq n rest False (st2, buf, ops @ [?op]) = (r, st', buf', ops')"
        by (simp add: Let_def)
      from Cons.prems(1) s2 have h: "list_all (\<lambda>a. list_all (not_requester (seq_counter st2)) (post a)) rest"
        by simp
      from Cons.IH [OF h Cons.prems(2) run] op show ?thesis by auto
    next
      case (Abort x)
      with Cons.prems(3) k nok e b2 op show ?thesis by (auto simp: Let_def)
    next
      case Blocked
      with Cons.prems(3) k nok e b2 op show ?thesis by (auto simp: Let_def)
    qed
  qed
qed

text \<open>
  Claim C9, as amended. The reduction runs on the scratch copy. When in no round of
  \<^verbatim>\<open>RecoverExec\<close> this worker is the one that takes a result, and the caller's buffer holds
  \<open>type_nbytes * count\<close> bytes, every attempt reduces a copy of the caller's original
  operands, and \<open>sendrecvbuf_\<close> at the end is either as the caller gave it or the copy of
  the scratch after a \<^verbatim>\<open>TryAllreduce\<close> that reported success.
\<close>

theorem Allreduce_operands:
  assumes "Allreduce kMaxSeq st buf type_nbytes count env = (r, st', buf', ops)"
    and "type_nbytes * count \<le> length buf"
    and "list_all (not_requester (seq_counter st)) (pre env)"
    and "list_all (\<lambda>a. list_all (not_requester (seq_counter st)) (post a)) (attempts env)"
  shows "list_all (\<lambda>x. take (type_nbytes * count) x = take (type_nbytes * count) buf) ops \<and>
         (buf' = buf \<or>
          (\<exists>a\<in>set (attempts env). fst (coll a) = kSuccess \<and>
             buf' = memcpy buf (snd (coll a)) (type_nbytes * count)))"
proof -
  let ?n = "type_nbytes * count"
  obtain r1 st1 b1 where first: "RecoverExec kMaxSeq buf ?n {} (seq_counter st) (pre env) st =
      (r1, (st1, b1))" by (metis prod.exhaust)
  from RecoverExec_buf [OF assms(3) first] have b1: "b1 = buf" "r1 \<noteq> Done True" by simp_all
  from RecoverExec_entries [OF first] have s1: "seq_counter st1 = seq_counter st"
    by (simp add: same_entries_def)
  show ?thesis
  proof (cases "\<exists>st2. r1 = Done False \<and> remove_last_result st1 = Inr st2")
    case False
    with assms(1) first b1 show ?thesis
      by (auto simp: Allreduce_def split: outcome.splits sum.splits)
  next
    case True
    then obtain st2 where r1: "r1 = Done False" and rm: "remove_last_result st1 = Inr st2"
      by blast
    let ?st2a = "st2\<lparr>resbuf := AllocTemp type_nbytes count (resbuf st2)\<rparr>"
    from rm s1 have s2: "seq_counter ?st2a = seq_counter st"
      by (auto simp: remove_last_result_def split: if_splits sum.splits)
    obtain r3 st3 b3 o3 where loop: "Allreduce_loop kMaxSeq ?n (attempts env) False
        (?st2a, buf, []) = (r3, st3, b3, o3)" by (metis prod.exhaust)
    from assms(4) s2
    have h: "list_all (\<lambda>a. list_all (not_requester (seq_counter ?st2a)) (post a)) (attempts env)"
      by simp
    from Allreduce_loop_operands [OF h assms(2) loop]
    have res: "(\<forall>x\<in>set o3. take ?n x = take ?n buf) \<and>
         (b3 = buf \<or>
            (\<exists>a\<in>set (attempts env). fst (coll a) = kSuccess \<and> b3 = memcpy buf (snd (coll a)) ?n))"
      by simp
    from assms(1) first r1 b1 rm loop have out: "ops = o3" "buf' = b3"
      by (auto simp: Allreduce_def split: outcome.splits sum.splits)
    with res show ?thesis
      by (auto simp: list_all_iff)
  qed
qed


text \<open>
  The first attempt fails, all ranks are still at sequence number 0, and the second
  attempt reduces the same operands \<open>1, 2\<close>.
\<close>

theorem Allreduce_operands_witness:
  "Allreduce 67108864 fresh_engine [1, 2] 1 2 retry_once =
     (Done (),
      fresh_engine\<lparr>seq_counter := 1, resbuf := \<lparr>entries =
         [\<lparr>entry_seqno = 0, entry_type_nbytes = 1, entry_count = 2, entry_data = [7, 7]\<rparr>],
         temp = [7, 7]\<rparr>\<rparr>,
      [7, 7], [[1, 2], [1, 2]]) \<and>
   list_all (\<lambda>x. take (1 * 2) x = take (1 * 2) [1, 2]) [[1, 2], [1, 2 :: 8 word]]"
proof -
  let ?st' = "fresh_engine\<lparr>seq_counter := 1, resbuf := \<lparr>entries =
         [\<lparr>entry_seqno = 0, entry_type_nbytes = 1, entry_count = 2, entry_data = [7, 7]\<rparr>],
         temp = [7, 7]\<rparr>\<rparr>"
  have run: "Allreduce 67108864 fresh_engine [1, 2] 1 2 retry_once =
     (Done (), ?st', [7, 7], [[1, 2], [1, 2]])"
    by (simp add: retry_once_def wrapper_defs recover_defs routing_defs transfer_defs
        example_defs Let_def)
  have len: "1 * 2 \<le> length [1, 2 :: 8 word]" by simp
  have h1: "list_all (not_requester (seq_counter fresh_engine)) (pre retry_once)"
    by (simp add: retry_once_def not_requester_def example_defs)
  have h2: "list_all (\<lambda>a. list_all (not_requester (seq_counter fresh_engine)) (post a))
      (attempts retry_once)"
    by (simp add: retry_once_def not_requester_def example_defs)
  from Allreduce_operands [OF run len h1 h2] run show ?thesis by blast
qed

text \<open>
  Claim C9 as stated fails. In the first run the only attempt fails and \<^verbatim>\<open>RecoverExec\<close>
  then returns \<open>true\<close> with the result \<open>8, 9\<close> of the collective in \<open>sendrecvbuf_\<close>: the
  buffer has been overwritten and no \<^verbatim>\<open>TryAllreduce\<close> has reported success. In the second
  run the transfer of that result fails after one byte and the next round of
  \<^verbatim>\<open>RecoverExec\<close> returns \<open>false\<close>: the retry reduces \<open>9, 2\<close> where the caller's operands
  were \<open>1, 2\<close>.
\<close>

theorem Allreduce_operands_counterexample:
  "Allreduce 67108864 fresh_engine [1, 2] 1 2 recovered_result =
     (Done (),
      fresh_engine\<lparr>seq_counter := 1, resbuf := \<lparr>entries =
         [\<lparr>entry_seqno = 0, entry_type_nbytes = 1, entry_count = 2, entry_data = [8, 9]\<rparr>],
         temp = [8, 9]\<rparr>, links := [idle_link\<lparr>size_read := 2\<rparr>]\<rparr>,
      [8, 9], [[1, 2]]) \<and>
   Allreduce 67108864 fresh_engine [1, 2] 1 2 broken_recovery =
     (Done (),
      fresh_engine\<lparr>seq_counter := 1, resbuf := \<lparr>entries =
         [\<lparr>entry_seqno = 0, entry_type_nbytes = 1, entry_count = 2, entry_data = [7, 7]\<rparr>],
         temp = [7, 7]\<rparr>\<rparr>,
      [7, 7], [[1, 2], [9, 2]])"
  by (simp add: recovered_result_def broken_recovery_def wrapper_defs recover_defs routing_defs
      transfer_defs example_defs Let_def)

subsection \<open>The return code of \<^verbatim>\<open>TryResetLinks\<close>\<close>

lemma reset_scan:
  "for_links (\<lambda>i u. if sock_bad (ls ! i) then (Some kSockError, u) else (None, u)) idx () =
     (if \<exists>i\<in>set idx. sock_bad (ls ! i) then (Some kSockError, ()) else (None, ()))"
  by (induction idx) auto

lemma reset_code_iff: "reset_code ls = (if \<exists>l\<in>set ls. sock_bad l then kSockError else kSuccess)"
proof -
  have "(\<exists>i\<in>set [0..<length ls]. sock_bad (ls ! i)) = (\<exists>l\<in>set ls. sock_bad l)"
  proof
    assume "\<exists>i\<in>set [0..<length ls]. sock_bad (ls ! i)"
    then obtain i where "i < length ls" "sock_bad (ls ! i)" by auto
    then show "\<exists>l\<in>set ls. sock_bad l" using nth_mem by blast
  next
    assume "\<exists>l\<in>set ls. sock_bad l"
    then obtain i where "i < length ls" "sock_bad (ls ! i)" by (auto simp: in_set_conv_nth)
    then show "\<exists>i\<in>set [0..<length ls]. sock_bad (ls ! i)" by auto
  qed
  then show ?thesis by (simp add: reset_code_def reset_scan)
qed

lemma still_bad_iff:
  "still_bad ls s =
     (length s = length ls \<and> (\<forall>i<length ls. sock_bad (ls ! i) \<longrightarrow> sock_bad (s ! i)))"
  by (auto simp: still_bad_def list_all_iff)

lemma still_bad_refl: "still_bad ls ls"
  by (simp add: still_bad_iff)

lemma still_bad_trans: "still_bad a b \<Longrightarrow> still_bad b c \<Longrightarrow> still_bad a c"
  by (simp add: still_bad_iff)

lemma sync_link_bad: "sync_link c a l = Done l' \<Longrightarrow> sock_bad l \<Longrightarrow> l' = l"
  by (simp add: sync_link_def split: prod.splits)

lemma ack_link_bad: "ack_link c a l = Inr l' \<Longrightarrow> sock_bad l \<Longrightarrow> l' = l"
  by (simp add: ack_link_def split: prod.splits)

lemma sync_step_still_bad:
  assumes "still_bad ls s"
  shows "still_bad ls (snd (sync_step c r i s))"
proof (cases "sync_link c (r i) (s ! i)")
  case (Done l)
  have "\<forall>j<length ls. sock_bad (ls ! j) \<longrightarrow> sock_bad (s[i := l] ! j)"
  proof (intro allI impI)
    fix j assume j: "j < length ls" and b: "sock_bad (ls ! j)"
    with assms have sj: "sock_bad (s ! j)" by (simp add: still_bad_iff)
    show "sock_bad (s[i := l] ! j)"
    proof (cases "i = j")
      case True
      with sj Done have "l = s ! j" by (auto dest: sync_link_bad)
      with True sj j assms show ?thesis by (simp add: still_bad_iff)
    next
      case False
      with sj show ?thesis by simp
    qed
  qed
  with assms Done show ?thesis by (simp add: sync_step_def still_bad_iff)
next
  case (Abort e)
  with assms show ?thesis by (simp add: sync_step_def)
next
  case Blocked
  with assms show ?thesis by (simp add: sync_step_def)
qed

lemma ack_step_still_bad:
  assumes "still_bad ls s"
  shows "still_bad ls (snd (ack_step c r i s))"
proof (cases "ack_link c (r i) (s ! i)")
  case (Inr l)
  have "\<forall>j<length ls. sock_bad (ls ! j) \<longrightarrow> sock_bad (s[i := l] ! j)"
  proof (intro allI impI)
    fix j assume j: "j < length ls" and b: "sock_bad (ls ! j)"
    with assms have sj: "sock_bad (s ! j)" by (simp add: still_bad_iff)
    show "sock_bad (s[i := l] ! j)"
    proof (cases "i = j")
      case True
      with sj Inr have "l = s ! j" by (auto dest: ack_link_bad)
      with True sj j assms show ?thesis by (simp add: still_bad_iff)
    next
      case False
      with sj show ?thesis by simp
    qed
  qed
  with assms Inr show ?thesis by (simp add: ack_step_def still_bad_iff)
next
  case (Inl e)
  with assms show ?thesis by (simp add: ack_step_def)
qed

text \<open>A socket that is bad after the drain is bad at the end of the handshake.\<close>

lemma TryResetLinks_sync_still_bad: "still_bad ls (snd (TryResetLinks_sync c env ls))"
proof -
  obtain r1 s1 where p1: "for_links (sync_step c (sync_ans env)) [0..<length ls] ls = (r1, s1)"
    by (metis prod.exhaust)
  have "still_bad ls (snd (for_links (sync_step c (sync_ans env)) [0..<length ls] ls))"
    by (rule for_links_inv [where P = "still_bad ls"])
      (simp_all add: sync_step_still_bad still_bad_refl)
  with p1 have b1: "still_bad ls s1" by simp
  obtain r2 s2 where p2: "for_links (ack_step c (ack_ans env)) [0..<length s1] s1 = (r2, s2)"
    by (metis prod.exhaust)
  have "still_bad s1 (snd (for_links (ack_step c (ack_ans env)) [0..<length s1] s1))"
    by (rule for_links_inv [where P = "still_bad s1"])
      (simp_all add: ack_step_still_bad still_bad_refl)
  with p2 have "still_bad s1 s2" by simp
  with b1 have b2: "still_bad ls s2" by (rule still_bad_trans)
  from p1 p2 b1 b2 show ?thesis
    by (cases r1; cases r2) (simp_all add: TryResetLinks_sync_def)
qed

text \<open>A read of length zero during the drain closes the socket.\<close>

lemma drain_link_closed:
  assumes "size_read l = 0" and "ans_len atmark = 0" and "ans_len rcv = 0"
  shows "\<exists>l'. drain_link (atmark, rcv, atmark2) l = Inr l' \<and> sock_bad l'"
  using assms by (simp add: drain_link_def Close_def Let_def)

text \<open>
  Claim C8. When \<^verbatim>\<open>TryResetLinks\<close> returns, it returns \<open>kSuccess\<close> if no socket of the links
  is bad at the end of the handshake and \<open>kSockError\<close> if one is; and when a socket is bad
  at the end of the drain, closed by a zero-length read or otherwise, it returns
  \<open>kSockError\<close>.
\<close>

theorem TryResetLinks_code:
  assumes "TryResetLinks c env ls = (Done r, ls')"
  shows "(r = kSuccess) = (\<forall>l\<in>set ls'. \<not> sock_bad l) \<and>
         (r = kSockError) = (\<exists>l\<in>set ls'. sock_bad l) \<and>
         (\<forall>ls1. TryResetLinks_drain c env ls = (Done (), ls1) \<and> (\<exists>l\<in>set ls1. sock_bad l) \<longrightarrow>
            r = kSockError)"
proof -
  from assms obtain ls1 where d: "TryResetLinks_drain c env ls = (Done (), ls1)"
    and s: "TryResetLinks_sync c env ls1 = (Done (), ls')" and r: "r = reset_code ls'"
    by (auto simp: TryResetLinks_def split: prod.splits outcome.splits)
  from TryResetLinks_sync_still_bad [of ls1 c env] s have sb: "still_bad ls1 ls'" by simp
  have "(\<exists>l\<in>set ls1. sock_bad l) \<longrightarrow> (\<exists>l\<in>set ls'. sock_bad l)"
  proof
    assume "\<exists>l\<in>set ls1. sock_bad l"
    then obtain i where "i < length ls1" "sock_bad (ls1 ! i)" by (auto simp: in_set_conv_nth)
    with sb have "i < length ls'" "sock_bad (ls' ! i)" by (simp_all add: still_bad_iff)
    then show "\<exists>l\<in>set ls'. sock_bad l" using nth_mem by blast
  qed
  with d r show ?thesis by (auto simp: reset_code_iff)
qed

text \<open>
  One link. When the first \<^verbatim>\<open>AtMark\<close> of the drain answers that the mark is reached, the
  handshake completes and the call returns \<open>kSuccess\<close>. When it answers that it is not and
  the read returns 0, the socket is closed and the call returns \<open>kSockError\<close>.
\<close>

theorem TryResetLinks_code_witness:
  "TryResetLinks posix (handshake (returns 1, returns 5, returns 0)) [idle_link] =
     (Done kSuccess, [idle_link\<lparr>size_read := 1, size_write := 2\<rparr>]) \<and>
   TryResetLinks posix (handshake (returns 0, returns 0, returns 0)) [idle_link] =
     (Done kSockError, [idle_link\<lparr>sock_bad := True, size_write := 2\<rparr>])"
proof -
  have ok: "TryResetLinks posix (handshake (returns 1, returns 5, returns 0)) [idle_link] =
     (Done kSuccess, [idle_link\<lparr>size_read := 1, size_write := 2\<rparr>])"
    by (simp add: TryResetLinks_def TryResetLinks_drain_def TryResetLinks_sync_def
        mark_body_def send_marks_def mark_finished_def drain_step_def drain_link_def
        drain_finished_def sync_step_def sync_link_def ack_step_def ack_link_def reset_code_def
        answered_def InitBuffer_def ResetSize_def Close_def posix_def returns_def handshake_def
        idle_link_def Let_def)
  have closed: "TryResetLinks posix (handshake (returns 0, returns 0, returns 0)) [idle_link] =
     (Done kSockError, [idle_link\<lparr>sock_bad := True, size_write := 2\<rparr>])"
    by (simp add: TryResetLinks_def TryResetLinks_drain_def TryResetLinks_sync_def
        mark_body_def send_marks_def mark_finished_def drain_step_def drain_link_def
        drain_finished_def sync_step_def sync_link_def ack_step_def ack_link_def reset_code_def
        answered_def InitBuffer_def ResetSize_def Close_def posix_def returns_def handshake_def
        idle_link_def Let_def)
  from TryResetLinks_code [OF ok] TryResetLinks_code [OF closed] ok closed
  show ?thesis by blast
qed

subsection \<open>The counters of \<^verbatim>\<open>TryRecoverData\<close>\<close>

lemma reads_bounded_iff: "reads_bounded sz s = (\<forall>i<length (fst s). size_read (fst s ! i) \<le> sz)"
  by (auto simp: reads_bounded_def list_all_length)

lemma writes_bounded_iff:
  "writes_bounded sz req_in s =
     (\<forall>i<length (fst s). req_in ! i \<longrightarrow> size_write (fst s ! i) \<le> sz)"
  by (auto simp: writes_bounded_def list_all_iff)

lemma writes_follow_iff:
  "writes_follow pid req_in s =
     (pid < length (fst s) \<and>
      (\<forall>i<length (fst s). req_in ! i \<longrightarrow> size_write (fst s ! i) \<le> size_read (fst s ! pid)))"
  by (auto simp: writes_follow_def list_all_iff)

text \<open>The role \<open>kHaveData\<close>: reads and writes stay within \<open>sz\<close>.\<close>

lemma have_write_bounds:
  assumes "reads_bounded sz s \<and> writes_bounded sz req_in s"
  shows "reads_bounded sz (snd (have_write env wr sz req_in i s)) \<and>
         writes_bounded sz req_in (snd (have_write env wr sz req_in i s))"
proof (cases "req_in ! i \<and> wr i \<and> i < length (fst s)")
  case False
  with assms show ?thesis
    by (auto simp: have_write_def Let_def reads_bounded_def writes_bounded_def
        list_update_beyond not_less split: prod.splits)
next
  case True
  with assms have w: "size_write (fst s ! i) \<le> sz" by (simp add: writes_bounded_iff)
  show ?thesis
  proof (cases "send_res env i")
    case (SendLen k)
    with True assms w show ?thesis
      by (auto simp: have_write_def Let_def WriteFromArray_def size_sub_def
          reads_bounded_iff writes_bounded_iff nth_list_update)
  next
    case SendAgain
    with True assms show ?thesis
      by (auto simp: have_write_def Let_def WriteFromArray_def
          reads_bounded_iff writes_bounded_iff nth_list_update)
  next
    case SendFail
    with True assms show ?thesis
      by (auto simp: have_write_def Let_def WriteFromArray_def
          reads_bounded_iff writes_bounded_iff nth_list_update)
  qed
qed

lemma iter_have_bounds:
  assumes "reads_bounded sz s \<and> writes_bounded sz req_in s"
  shows "reads_bounded sz (snd (TryRecoverData_iter kHaveData sz recv_link req_in env s)) \<and>
         writes_bounded sz req_in (snd (TryRecoverData_iter kHaveData sz recv_link req_in env s))"
  using assms
  by (simp add: TryRecoverData_iter_def Let_def
      for_links_inv [where P = "\<lambda>s. reads_bounded sz s \<and> writes_bounded sz req_in s"]
      have_write_bounds)

text \<open>The role \<open>kRequestData\<close>: reads stay within \<open>sz\<close>, writes behind the read.\<close>

lemma request_write_bounds:
  assumes "reads_bounded sz s \<and> writes_follow pid req_in s"
  shows "reads_bounded sz (snd (request_write env wr pid req_in i s)) \<and>
         writes_follow pid req_in (snd (request_write env wr pid req_in i s))"
proof (cases "req_in ! i \<and> size_write (fst s ! i) \<noteq> size_read (fst s ! pid) \<and> wr i \<and> i < length (fst s)")
  case False
  with assms show ?thesis
    by (auto simp: request_write_def Let_def reads_bounded_def writes_follow_def
        list_update_beyond not_less split: prod.splits)
next
  case True
  with assms have w: "size_write (fst s ! i) \<le> size_read (fst s ! pid)" and p: "pid < length (fst s)"
    by (simp_all add: writes_follow_iff)
  show ?thesis
  proof (cases "send_res env i")
    case (SendLen k)
    with True assms w p show ?thesis
      by (auto simp: request_write_def Let_def WriteFromArray_def size_sub_def
          reads_bounded_iff writes_follow_iff nth_list_update)
  next
    case SendAgain
    with True assms show ?thesis
      by (auto simp: request_write_def Let_def WriteFromArray_def
          reads_bounded_iff writes_follow_iff nth_list_update)
  next
    case SendFail
    with True assms show ?thesis
      by (auto simp: request_write_def Let_def WriteFromArray_def
          reads_bounded_iff writes_follow_iff nth_list_update)
  qed
qed

lemma ReadToArray_bounds:
  assumes "reads_bounded sz s \<and> writes_follow pid req_in s"
    and "ReadToArray (fst s ! pid) (snd s) sz r = (ok, l, b)"
  shows "reads_bounded sz ((fst s)[pid := l], b) \<and> writes_follow pid req_in ((fst s)[pid := l], b)"
proof -
  from assms(1) have p: "pid < length (fst s)" and rp: "size_read (fst s ! pid) \<le> sz"
    by (simp_all add: writes_follow_iff reads_bounded_iff)
  have "size_read (fst s ! pid) \<le> size_read l \<and> size_read l \<le> sz \<and> size_write l = size_write (fst s ! pid)"
    using assms(2) rp
    by (auto simp: ReadToArray_def Let_def size_sub_def Close_def split: if_splits recv_result.splits)
  with assms(1) p show ?thesis
    by (auto simp: reads_bounded_iff writes_follow_iff nth_list_update)
qed

lemma request_handler_bounds:
  assumes "reads_bounded sz s \<and> writes_follow (nat (sint recv_link)) req_in s"
  shows "reads_bounded sz (snd (request_handler env rd wr sz recv_link req_in s)) \<and>
         writes_follow (nat (sint recv_link)) req_in (snd (request_handler env rd wr sz recv_link req_in s))"
proof -
  let ?pid = "nat (sint recv_link)"
  let ?P = "\<lambda>s. reads_bounded sz s \<and> writes_follow ?pid req_in s"
  obtain ok l b where rd_eq: "ReadToArray (fst s ! ?pid) (snd s) sz (recv_res env ?pid) = (ok, l, b)"
    by (metis prod.exhaust)
  from ReadToArray_bounds [OF assms rd_eq] have after: "?P ((fst s)[?pid := l], b)" .
  have loop: "?P s' \<Longrightarrow> ?P (snd (for_links (request_write env wr ?pid req_in) idx s'))"
    for s' idx
    using for_links_inv [where P = ?P and body = "request_write env wr ?pid req_in"
        and s = s' and idx = idx] request_write_bounds by blast
  show ?thesis
  proof (cases rd)
    case False
    with loop [OF assms] show ?thesis by (simp add: request_handler_def Let_def)
  next
    case True
    show ?thesis
    proof (cases ok)
      case False
      with True rd_eq after show ?thesis by (simp add: request_handler_def Let_def)
    next
      case ok: True
      with True rd_eq loop [OF after] show ?thesis
        by (simp add: request_handler_def Let_def)
    qed
  qed
qed


text \<open>The role \<open>kPassData\<close>: writes stay behind the read.\<close>

lemma pass_write_follow:
  assumes "writes_follow pid req_in s"
  shows "writes_follow pid req_in (snd (pass_write env wr pid req_in i s))"
proof (cases "req_in ! i \<and> wr i \<and> size_read (fst s ! pid) \<noteq> size_write (fst s ! i) \<and>
    i < length (fst s) \<and> buffer_size (fst s ! pid) \<noteq> 0")
  case False
  with assms show ?thesis
    by (auto simp: pass_write_def Let_def writes_follow_def list_update_beyond not_less
        split: send_result.splits)
next
  case True
  with assms have w: "size_write (fst s ! i) \<le> size_read (fst s ! pid)" and p: "pid < length (fst s)"
    by (simp_all add: writes_follow_iff)
  show ?thesis
  proof (cases "send_res env i")
    case (SendLen k)
    with True assms w p show ?thesis
      by (auto simp: pass_write_def Let_def size_sub_def writes_follow_iff nth_list_update)
  next
    case SendAgain
    with True assms show ?thesis by (simp add: pass_write_def Let_def)
  next
    case SendFail
    with True assms show ?thesis by (simp add: pass_write_def Let_def)
  qed
qed

lemma ReadToRingBuffer_follow:
  assumes "writes_follow pid req_in s"
    and "ReadToRingBuffer (fst s ! pid) m r = (ok, l)"
  shows "writes_follow pid req_in ((fst s)[pid := l], b)"
proof -
  from assms(1) have p: "pid < length (fst s)" by (simp add: writes_follow_iff)
  have "size_read (fst s ! pid) \<le> size_read l \<and> size_write l = size_write (fst s ! pid)"
    using assms(2)
    by (auto simp: ReadToRingBuffer_def Let_def Close_def split: if_splits recv_result.splits)
  with assms(1) p show ?thesis
    by (auto simp: writes_follow_iff nth_list_update intro: le_trans)
qed

lemma pass_handler_follow:
  assumes "writes_follow (nat (sint recv_link)) req_in s"
  shows "writes_follow (nat (sint recv_link)) req_in
           (snd (pass_handler env rd wr sz recv_link req_in s))"
proof -
  let ?pid = "nat (sint recv_link)"
  let ?P = "writes_follow ?pid req_in"
  let ?m = "min_write sz req_in (fst s)"
  obtain ok l where rd_eq: "ReadToRingBuffer (fst s ! ?pid) ?m (recv_res env ?pid) = (ok, l)"
    by (metis prod.exhaust)
  from ReadToRingBuffer_follow [OF assms rd_eq] have after: "?P ((fst s)[?pid := l], snd s)" .
  have loop: "?P s' \<Longrightarrow> ?P (snd (for_links (pass_write env wr ?pid req_in) idx s'))"
    for s' idx
    using for_links_inv [where P = ?P and body = "pass_write env wr ?pid req_in"
        and s = s' and idx = idx] pass_write_follow by blast
  show ?thesis
  proof (cases "rd")
    case False
    with loop [OF assms] show ?thesis by (simp add: pass_handler_def Let_def)
  next
    case True
    show ?thesis
    proof (cases "?m \<le> size_read (fst s ! ?pid)")
      case False
      with True assms show ?thesis by (simp add: pass_handler_def Let_def)
    next
      case m: True
      show ?thesis
      proof (cases ok)
        case False
        with True m rd_eq after show ?thesis by (simp add: pass_handler_def Let_def)
      next
        case ok: True
        with True m rd_eq loop [OF after] show ?thesis
          by (simp add: pass_handler_def Let_def)
      qed
    qed
  qed
qed

text \<open>One iteration of the event loop and the loop keep the bounds of the role.\<close>

lemma iter_counters:
  assumes "counters_ok role sz (nat (sint recv_link)) req_in s"
  shows "counters_ok role sz (nat (sint recv_link)) req_in
           (snd (TryRecoverData_iter role sz recv_link req_in env s))"
proof (cases "list_ex (ready_except env) [0..<length (fst s)]")
  case True
  with assms show ?thesis by (simp add: TryRecoverData_iter_def Let_def)
next
  case False
  show ?thesis
  proof (cases role)
    case kHaveData
    with assms iter_have_bounds [of sz s req_in recv_link env] show ?thesis
      by (simp add: counters_ok_def)
  next
    case kRequestData
    with assms False request_handler_bounds [of sz s recv_link req_in env] show ?thesis
      by (simp add: counters_ok_def TryRecoverData_iter_def Let_def)
  next
    case kPassData
    with assms False pass_handler_follow [of recv_link req_in s env] show ?thesis
      by (simp add: counters_ok_def TryRecoverData_iter_def Let_def)
  qed
qed

lemma loop_counters:
  "counters_ok role sz (nat (sint recv_link)) req_in s \<Longrightarrow>
   counters_ok role sz (nat (sint recv_link)) req_in
     (snd (TryRecoverData_loop role sz recv_link req_in script s))"
proof (induction script arbitrary: s)
  case Nil
  then show ?case by auto
next
  case (Cons env rest)
  obtain r s' where it: "TryRecoverData_iter role sz recv_link req_in env s = (r, s')"
    by (cases "TryRecoverData_iter role sz recv_link req_in env s")
  with iter_counters [OF Cons.prems, of env]
  have "counters_ok role sz (nat (sint recv_link)) req_in s'" by simp
  with Cons.IH [of s'] it Cons.prems show ?case by (cases r) auto
qed

text \<open>
  The bounds of claim C6 that hold throughout the event loop, whatever the network
  answers: all of them in the roles \<open>kHaveData\<close> and \<open>kRequestData\<close>, and the bound on the
  writes in the role \<open>kPassData\<close>.
\<close>

lemma TryRecoverData_counters:
  assumes "role = kHaveData \<or> nat (sint recv_link) < length ls"
  shows "counters_ok role sz (nat (sint recv_link)) req_in
           (snd (TryRecoverData_loop role sz recv_link req_in script (map ResetSize ls, buf)))"
proof -
  have "counters_ok role sz (nat (sint recv_link)) req_in (map ResetSize ls, buf)"
    using assms
    by (cases role)
      (auto simp: counters_ok_def reads_bounded_iff writes_bounded_iff writes_follow_iff
        ResetSize_def)
  then show ?thesis by (rule loop_counters)
qed

text \<open>
  Claim C6 at a failing input. A node that passes 4 bytes from link 0 to link 1, with ring
  buffers of 16 bytes. In the first round link 0 is readable and six bytes are there (the
  four of the payload and two of what its peer sent next): \<^verbatim>\<open>ReadToRingBuffer\<close> is given
  \<open>min_write\<close> only and takes all six, so \<open>size_read\<close> of link 0 becomes 6, more than
  \<open>size\<close>. In the second round link 1 is writable and the six bytes are forwarded:
  \<open>size_write\<close> of link 1 becomes 6. Neither counter can be equal to \<open>size\<close> any more and
  the loop does not end. The roles \<open>kRequestData\<close> and \<open>kHaveData\<close> bound their reads and
  writes by \<open>size\<close>.
\<close>

theorem TryRecoverData_pass_overrun:
  "(let run = TryRecoverData kPassData [] 4 0 [False, True]
       [quiet\<lparr>ready_read := (\<lambda>i. i = 0), recv_res := (\<lambda>i. RecvData [1, 2, 3, 4, 5, 6])\<rparr>,
        quiet\<lparr>ready_write := (\<lambda>i. i = 1), send_res := (\<lambda>i. SendLen 100)\<rparr>]
       [idle_link, idle_link]
    in run =
         (Blocked,
          [idle_link\<lparr>size_read := 6, buffer_head := [1, 2, 3, 4, 5, 6] @ replicate 10 0\<rparr>,
           idle_link\<lparr>size_write := 6, wire_out := [1, 2, 3, 4, 5, 6]\<rparr>],
          []) \<and>
       \<not> reads_bounded 4 (snd run) \<and> 4 < size_write (fst (snd run) ! 1))"
  by (simp add: transfer_defs example_defs reads_bounded_def Let_def)

end
